theory Spec2Isabelle
  imports Main
begin

section \<open>Values shared by the pages and the stores\<close>

text \<open>
  JavaScript strings are modelled as \<^typ>\<open>string\<close>. The only characters outside ASCII that
  the modelled code writes are Latin-1 letters, whose UTF-16 code unit fits one
  \<^typ>\<open>char\<close>: U+00F1 in the shift name.

  \<open>a || b\<close> on strings yields \<open>b\<close> when \<open>a\<close> is \<open>undefined\<close>, \<open>null\<close> or the empty string.
  \<open>orElse\<close> is that operator with the possibly missing left operand as an option.
\<close>

definition orElse :: "string option \<Rightarrow> string \<Rightarrow> string" where
  "orElse a b = (case a of None \<Rightarrow> b | Some s \<Rightarrow> if s = [] then b else s)"

text \<open>
  \<open>Date.now()\<close> is a non-negative integer number of milliseconds; its conversion to a
  string (\<open>toString\<close>, template literal) is the decimal numeral without leading zeros.
\<close>

definition digit :: "nat \<Rightarrow> char" where
  "digit d = char_of (48 + d)"

function dec :: "nat \<Rightarrow> string" where
  "dec n = (if n < 10 then [digit n] else dec (n div 10) @ [digit (n mod 10)])"
  by pat_completeness auto
termination
  by (relation "measure (\<lambda>n. n)") auto

declare dec.simps [simp del]

text \<open>
  One reading of the clock: \<open>Date.now()\<close> and \<open>new Date().toISOString()\<close>. A call of a page
  operation reads the clock once in the model.
\<close>

record clock =
  nowMs :: nat
  nowISO :: string

datatype shift = manana | noche

definition shift_str :: "shift \<Rightarrow> string" where
  "shift_str s = (case s of manana \<Rightarrow> ''ma'' @ [CHR 0xF1] @ ''ana'' | noche \<Rightarrow> ''noche'')"

datatype status = en_curso | finalizado

record trip =
  trip_id :: string
  groupId :: "string option"
  trip_shift :: "shift option"
  passengerId :: string
  passengerName :: string
  passengerCedula :: string
  conductorId :: string
  conductorName :: string
  ruta :: string
  startTime :: string
  endTime :: "string option"
  status :: status
  createdAt :: string

record passenger =
  p_id :: string
  p_name :: string
  p_cedula :: string
  p_gerencia :: string
  p_qrCode :: string
  p_createdAt :: string

text \<open>The conductor as the scan page reads it: \<open>id\<close>, \<open>name\<close>, \<open>cedula\<close> and the optional \<open>ruta\<close>.\<close>

record conductor =
  c_id :: string
  c_name :: string
  c_cedula :: string
  c_placa :: string
  c_ruta :: "string option"

record user =
  u_id :: string
  u_name :: string
  u_cedula :: string

section \<open>The scan page (ScanQR)\<close>

text \<open>
  The state the page's handlers read and write:
  \<^item> \<open>ls_trips\<close>: the array under the key \<open>transport_trips\<close> of localStorage
    (\<open>storage.getTrips\<close>, \<open>storage.saveTrips\<close>, both synchronous);
  \<^item> \<open>ls_items\<close>: every other key of localStorage; the group bindings live here, under keys
    that start with \<open>transport_current_group_\<close>;
  \<^item> \<open>auth_user\<close>: the user of the authentication context;
  \<^item> the component state: \<open>activeTrips\<close>, \<open>passengers\<close>, \<open>conductors\<close>,
    \<open>currentGroupId\<close>, \<open>shift\<close> (\<open>None\<close> is the empty selection).

  \<open>passengers\<close> and \<open>conductors\<close> are initialised with the empty array. \<open>loadData\<close> stores in
  them what \<open>storage.getPassengers()\<close> and \<open>storage.getConductors()\<close> return; both functions
  are \<open>async\<close>, and the page does not await them, so what it stores is a promise. The two
  state variables therefore hold an array or a promise.
\<close>

datatype 'a fetched = Array "'a list" | Promise

record page =
  ls_trips :: "trip list"
  ls_items :: "string \<rightharpoonup> string"
  auth_user :: "user option"
  activeTrips :: "trip list"
  passengers :: "passenger fetched"
  conductors :: "conductor fetched"
  currentGroupId :: "string option"
  shift :: "shift option"

text \<open>
  How a handler ends other than by returning normally. The page reports a refusal by
  \<open>setScanResult({type: 'error', ...})\<close> followed by an early return: \<open>InvalidState\<close> is the
  message asking to select the shift, \<open>CapacityExceeded\<close> the message that the capacity of 18
  is reached. \<open>TypeError\<close> is the exception that calling \<open>find\<close> on a promise throws; the
  state updates and the writes to localStorage made before the throw stay. No path of the
  page reports \<open>NotFound\<close>.
\<close>

datatype error = InvalidState | CapacityExceeded | NotFound | TypeError

definition buildGroupStorageKey :: "clock \<Rightarrow> string \<Rightarrow> string \<Rightarrow> shift option \<Rightarrow> string" where
  "buildGroupStorageKey clk cid r currentShift =
     (let day = take 10 (nowISO clk)
      in ''transport_current_group_'' @ cid @ ''_'' @ (if r = [] then ''sin_ruta'' else r)
           @ ''_'' @ (case currentShift of None \<Rightarrow> ''sin_turno'' | Some s \<Rightarrow> shift_str s)
           @ ''_'' @ day)"

text \<open>\<open>conductors.find(c => c.cedula === user?.cedula)\<close> on an array.\<close>

definition findConductor :: "user option \<Rightarrow> conductor list \<Rightarrow> conductor option" where
  "findConductor u cs =
     List.find (\<lambda>c. case u of None \<Rightarrow> False | Some x \<Rightarrow> c_cedula c = u_cedula x) cs"

text \<open>\<open>conductor?.id || user?.id || ''\<close>\<close>

definition conductorIdOf :: "conductor option \<Rightarrow> user option \<Rightarrow> string" where
  "conductorIdOf c u = orElse (map_option c_id c) (orElse (map_option u_id u) [])"

text \<open>\<open>localStorage.getItem(key) || null\<close>, and the test \<open>!groupId\<close>.\<close>

definition truthyItem :: "string option \<Rightarrow> string option" where
  "truthyItem v = (case v of None \<Rightarrow> None | Some s \<Rightarrow> if s = [] then None else Some s)"

text \<open>
  \<open>loadData\<close> (lines 43 to 57). \<open>passengersData\<close> and \<open>conductorsData\<close> are the promises of the
  two \<open>async\<close> getters. The three state updates are made, then \<open>conductorsData.find\<close> throws:
  the lines that reload the current group id are never reached.
\<close>

definition loadData :: "page \<Rightarrow> error option \<times> page" where
  "loadData st =
     (let trips = ls_trips st;
          passengersData = Promise;
          conductorsData = Promise
      in (Some TypeError,
          st\<lparr>activeTrips := filter (\<lambda>t. status t = en_curso) trips,
              passengers := passengersData,
              conductors := conductorsData\<rparr>))"

text \<open>
  The lookup-or-mint of the group id inside \<open>iniciarViaje\<close> (lines 156 to 164): the binding
  under the derived key when it is a non-empty string, otherwise a fresh id made of the
  conductor id and \<open>Date.now()\<close>, stored under the key.
\<close>

definition ensureGroup :: "clock \<Rightarrow> string \<Rightarrow> string \<Rightarrow> shift option \<Rightarrow> (string \<rightharpoonup> string)
    \<Rightarrow> string \<times> (string \<rightharpoonup> string)" where
  "ensureGroup clk cid r sh items =
     (let groupKey = buildGroupStorageKey clk cid r sh
      in case truthyItem (items groupKey) of
           Some g \<Rightarrow> (g, items)
         | None \<Rightarrow> (let g = cid @ ''-'' @ dec (nowMs clk) in (g, items(groupKey \<mapsto> g))))"

text \<open>
  \<open>iniciarViaje\<close> (lines 149 to 194). Its first statement calls \<open>conductors.find\<close>, which
  throws when the state holds a promise. An accepted start writes the trips and then calls
  \<open>loadData\<close>.
\<close>

definition iniciarViaje :: "clock \<Rightarrow> passenger \<Rightarrow> page \<Rightarrow> error option \<times> page" where
  "iniciarViaje clk p st =
     (case conductors st of
        Promise \<Rightarrow> (Some TypeError, st)
      | Array cs \<Rightarrow>
         (let c = findConductor (auth_user st) cs
          in case shift st of
               None \<Rightarrow> (Some InvalidState, st)
             | Some sh \<Rightarrow>
                (let cid = conductorIdOf c (auth_user st);
                     r = orElse (Option.bind c c_ruta) ''Ruta no especificada'';
                     (g, items) = ensureGroup clk cid r (shift st) (ls_items st);
                     st1 = st\<lparr>ls_items := items, currentGroupId := Some g\<rparr>;
                     trips = ls_trips st1;
                     currentGroupTrips = filter (\<lambda>t. groupId t = Some g) trips
                 in if length currentGroupTrips \<ge> 18 then (Some CapacityExceeded, st1)
                    else
                      (let newTrip = \<lparr>trip_id = dec (nowMs clk),
                             groupId = Some g,
                             trip_shift = Some sh,
                             passengerId = p_id p,
                             passengerName = p_name p,
                             passengerCedula = p_cedula p,
                             conductorId = conductorIdOf c (auth_user st),
                             conductorName = orElse (map_option c_name c)
                                               (orElse (map_option u_name (auth_user st)) []),
                             ruta = orElse (Option.bind c c_ruta) ''Ruta no especificada'',
                             startTime = nowISO clk,
                             endTime = None,
                             status = en_curso,
                             createdAt = nowISO clk\<rparr>
                       in loadData (st1\<lparr>ls_trips := trips @ [newTrip]\<rparr>)))))"

definition finalizeTrip :: "clock \<Rightarrow> trip \<Rightarrow> trip" where
  "finalizeTrip clk t = t\<lparr>status := finalizado, endTime := Some (nowISO clk)\<rparr>"

text \<open>\<open>finalizarViaje\<close> (lines 196 to 206): the write of the trips, then \<open>loadData\<close>.\<close>

definition finalizarViaje :: "clock \<Rightarrow> string \<Rightarrow> page \<Rightarrow> error option \<times> page" where
  "finalizarViaje clk tripId st =
     (let trips = ls_trips st;
          updatedTrips = map (\<lambda>t. if trip_id t = tripId then finalizeTrip clk t else t) trips
      in loadData (st\<lparr>ls_trips := updatedTrips\<rparr>))"

text \<open>
  \<open>finalizarRuta\<close> (lines 214 to 233); \<open>confirmed\<close> is the answer of \<open>window.confirm\<close>. The
  trips to finalize are taken from the component's \<open>activeTrips\<close> and matched against the
  stored trips by id. The trips are written first; \<open>conductors.find\<close> comes after that and
  before the binding is removed.
\<close>

definition finalizarRuta :: "bool \<Rightarrow> clock \<Rightarrow> string \<Rightarrow> page \<Rightarrow> error option \<times> page" where
  "finalizarRuta confirmed clk r st =
     (if confirmed then
        (let tripsToFinalize = filter (\<lambda>t. ruta t = r) (activeTrips st);
             trips = ls_trips st;
             updatedTrips = map (\<lambda>t. if (\<exists>x \<in> set tripsToFinalize. trip_id x = trip_id t)
                                       then finalizeTrip clk t else t) trips;
             st1 = st\<lparr>ls_trips := updatedTrips\<rparr>
         in case conductors st of
              Promise \<Rightarrow> (Some TypeError, st1)
            | Array cs \<Rightarrow>
               (let c = findConductor (auth_user st) cs;
                    cid = conductorIdOf c (auth_user st);
                    groupKey = buildGroupStorageKey clk cid r (shift st)
                in loadData (st1\<lparr>ls_items := (ls_items st)(groupKey := None),
                                  currentGroupId := None\<rparr>)))
      else (None, st))"

text \<open>
  The handler of the shift selector (\<open>onChange\<close>, lines 254 to 262): it stores the selection
  and, when \<open>conductors.find\<close> does not throw, reloads the group id bound to the new selection.
\<close>

definition selectShift :: "clock \<Rightarrow> shift option \<Rightarrow> page \<Rightarrow> error option \<times> page" where
  "selectShift clk v st =
     (case conductors st of
        Promise \<Rightarrow> (Some TypeError, st\<lparr>shift := v\<rparr>)
      | Array cs \<Rightarrow>
         (let c = findConductor (auth_user st) cs;
              key = buildGroupStorageKey clk (conductorIdOf c (auth_user st))
                      (orElse (Option.bind c c_ruta) []) v;
              existingGroupId = ls_items st key
          in (None, st\<lparr>shift := v, currentGroupId := truthyItem existingGroupId\<rparr>)))"

text \<open>
  Sequences of the page's operations, each with the clock reading it runs at. The model is of
  the handlers: what a call reads and writes. What React does with an exception of a handler
  or of the markup (the button shown when \<open>currentGroupId\<close> is set uses \<open>FileText\<close>, which the
  file does not import) is outside it. A page that is no longer rendered runs no further
  handler, so the calls the page makes are always a sequence of the model.
\<close>

datatype op =
    Start clock passenger
  | FinalizeOne clock string
  | FinalizeRoute bool clock string
  | SelectShift clock "shift option"

fun step :: "op \<Rightarrow> page \<Rightarrow> error option \<times> page" where
  "step (Start clk p) st = iniciarViaje clk p st"
| "step (FinalizeOne clk tripId) st = finalizarViaje clk tripId st"
| "step (FinalizeRoute confirmed clk r) st = finalizarRuta confirmed clk r st"
| "step (SelectShift clk v) st = selectShift clk v st"

text \<open>\<open>run\<close> returns how each operation ended, in order, and the final state.\<close>

fun run :: "op list \<Rightarrow> page \<Rightarrow> error option list \<times> page" where
  "run [] st = ([], st)"
| "run (x # xs) st =
     (let (e, st1) = step x st; (es, st2) = run xs st1 in (e # es, st2))"


definition derivedGroup :: "clock \<Rightarrow> conductor list \<Rightarrow> page \<Rightarrow> string" where
  "derivedGroup clk cs st =
     (let c = findConductor (auth_user st) cs
      in fst (ensureGroup clk (conductorIdOf c (auth_user st))
                (orElse (Option.bind c c_ruta) ''Ruta no especificada'') (shift st) (ls_items st)))"

text \<open>
  The stored trips that carry a group id (\<open>trips.filter(t => t.groupId === groupId)\<close>), and
  those of them that are active.
\<close>

definition inGroup :: "string \<Rightarrow> trip list \<Rightarrow> trip list" where
  "inGroup g ts = filter (\<lambda>t. groupId t = Some g) ts"


section \<open>The durable store (IndexedDBService)\<close>

text \<open>
  The service opens one IndexedDB database and reads and writes its object stores. The engine
  behind \<open>IDBObjectStore.put\<close> belongs to the browser; it is modelled here after the Indexed
  Database API:
  \<^item> every object store has the key path \<open>id\<close>; \<open>put\<close> replaces the stored record that has
    the key of the given record, or adds the record when no stored record has it;
  \<^item> a \<open>put\<close> that would leave two records with the same key in a unique index fails with
    \<open>ConstraintError\<close>; a record without the indexed property is not in the index;
  \<^item> a request whose error event is not cancelled aborts its transaction, which undoes the
    writes of the transaction (the service never cancels the event);
  \<^item> a transaction on an object store that does not exist fails with \<open>NotFoundError\<close>.

  A stored record is its key and its string-valued properties by name. \<open>getAll\<close> delivers the
  records in key order; the model keeps them in the order of their first insertion, and no
  statement below depends on the order.
\<close>

record obj =
  obj_id :: string
  obj_props :: "(string \<times> string) list"

datatype storeName = Users | Passengers | Conductors | Trips | Signatures | ConductorCredentials

record index =
  ix_name :: string
  ix_keyPath :: string
  ix_unique :: bool

type_synonym schema = "(storeName \<times> index list) list"

datatype idb_error = ConstraintError | NotFoundError

text \<open>
  \<open>if (!db.objectStoreNames.contains(n)) { db.createObjectStore(n, {keyPath: 'id'}); ... }\<close>
  with the indexes created on the new store.
\<close>

definition createStore :: "storeName \<Rightarrow> index list \<Rightarrow> schema \<Rightarrow> schema" where
  "createStore n ixs sch = (if n \<in> fst ` set sch then sch else sch @ [(n, ixs)])"

definition onupgradeneeded :: "schema \<Rightarrow> schema" where
  "onupgradeneeded sch0 =
     (let sch1 = createStore Users
                   [\<lparr>ix_name = ''cedula'', ix_keyPath = ''cedula'', ix_unique = True\<rparr>] sch0;
          sch2 = createStore Passengers
                   [\<lparr>ix_name = ''cedula'', ix_keyPath = ''cedula'', ix_unique = True\<rparr>] sch1;
          sch3 = createStore Conductors
                   [\<lparr>ix_name = ''cedula'', ix_keyPath = ''cedula'', ix_unique = True\<rparr>] sch2;
          sch4 = createStore Trips
                   [\<lparr>ix_name = ''conductorId'', ix_keyPath = ''conductorId'', ix_unique = False\<rparr>,
                    \<lparr>ix_name = ''passengerId'', ix_keyPath = ''passengerId'', ix_unique = False\<rparr>,
                    \<lparr>ix_name = ''groupId'', ix_keyPath = ''groupId'', ix_unique = False\<rparr>,
                    \<lparr>ix_name = ''startTime'', ix_keyPath = ''startTime'', ix_unique = False\<rparr>] sch3;
          sch5 = createStore Signatures [] sch4;
          sch6 = createStore ConductorCredentials
                   [\<lparr>ix_name = ''conductorId'', ix_keyPath = ''conductorId'', ix_unique = False\<rparr>] sch5
      in sch6)"

text \<open>The database as \<open>init\<close> leaves it: the stores with their indexes, and their records.\<close>

record database =
  db_schema :: schema
  db_content :: "storeName \<Rightarrow> obj list"

definition indexKey :: "string \<Rightarrow> obj \<Rightarrow> string option" where
  "indexKey keyPath r = map_of (obj_props r) keyPath"

definition violates :: "index list \<Rightarrow> obj \<Rightarrow> obj list \<Rightarrow> bool" where
  "violates ixs r S \<longleftrightarrow>
     (\<exists>ix \<in> set ixs. ix_unique ix \<and>
        (case indexKey (ix_keyPath ix) r of
           None \<Rightarrow> False
         | Some k \<Rightarrow> (\<exists>x \<in> set S. obj_id x \<noteq> obj_id r \<and> indexKey (ix_keyPath ix) x = Some k)))"

definition upsert :: "obj \<Rightarrow> obj list \<Rightarrow> obj list" where
  "upsert r S = (if obj_id r \<in> obj_id ` set S
                 then map (\<lambda>x. if obj_id x = obj_id r then r else x) S
                 else S @ [r])"

text \<open>\<open>store.put(data)\<close> on a store with the indexes \<open>ixs\<close> and the records \<open>S\<close>.\<close>

definition putObj :: "index list \<Rightarrow> obj \<Rightarrow> obj list \<Rightarrow> idb_error + obj list" where
  "putObj ixs r S = (if violates ixs r S then Inl ConstraintError else Inr (upsert r S))"

text \<open>The \<open>put\<close> requests of \<open>data.forEach\<close>, in order, in one transaction.\<close>

fun putAll :: "index list \<Rightarrow> obj list \<Rightarrow> obj list \<Rightarrow> idb_error + obj list" where
  "putAll ixs [] S = Inr S"
| "putAll ixs (r # rs) S =
     (case putObj ixs r S of Inl e \<Rightarrow> Inl e | Inr S' \<Rightarrow> putAll ixs rs S')"

text \<open>
  The puts of a list of records in order without the uniqueness test: what \<open>putAll\<close> leaves
  when no put fails.
\<close>

definition upsertAll :: "obj list \<Rightarrow> obj list \<Rightarrow> obj list" where
  "upsertAll S L = foldl (\<lambda>T r. upsert r T) S L"

text \<open>
  \<open>save\<close> and \<open>saveAll\<close>: the error with which the promise rejects, if any, and the database
  afterwards (unchanged when the promise rejects, the transaction being aborted).
\<close>

definition save :: "storeName \<Rightarrow> obj \<Rightarrow> database \<Rightarrow> idb_error option \<times> database" where
  "save n data db =
     (case map_of (db_schema db) n of
        None \<Rightarrow> (Some NotFoundError, db)
      | Some ixs \<Rightarrow>
          (case putObj ixs data (db_content db n) of
             Inl e \<Rightarrow> (Some e, db)
           | Inr S \<Rightarrow> (None, db\<lparr>db_content := (db_content db)(n := S)\<rparr>)))"

definition saveAll :: "storeName \<Rightarrow> obj list \<Rightarrow> database \<Rightarrow> idb_error option \<times> database" where
  "saveAll n data db =
     (case map_of (db_schema db) n of
        None \<Rightarrow> (Some NotFoundError, db)
      | Some ixs \<Rightarrow>
          if length data = 0 then (None, db)
          else (case putAll ixs data (db_content db n) of
                  Inl e \<Rightarrow> (Some e, db)
                | Inr S \<Rightarrow> (None, db\<lparr>db_content := (db_content db)(n := S)\<rparr>)))"

text \<open>
  The state \<open>migrateFromLocalStorage\<close> works on: the database, the localStorage key
  \<open>transport_migration_completed\<close>, and the arrays that \<open>getFromLocalStorage\<close> reads from the
  legacy keys (\<open>transport_users\<close> and so on; the empty array for a key that is missing or
  does not parse).
\<close>

record app =
  idb :: database
  migration_completed :: "string option"
  legacy :: "storeName \<Rightarrow> obj list"

definition migrationOrder :: "storeName list" where
  "migrationOrder = [Users, Passengers, Conductors, Trips, Signatures, ConductorCredentials]"

text \<open>
  \<open>if (xs.length > 0) await this.saveXs(xs)\<close> for the stores in order; the first rejection
  leaves the \<open>try\<close> block.
\<close>

fun saveEach :: "storeName list \<Rightarrow> (storeName \<Rightarrow> obj list) \<Rightarrow> database
    \<Rightarrow> idb_error option \<times> database" where
  "saveEach [] leg db = (None, db)"
| "saveEach (n # ns) leg db =
     (if length (leg n) > 0
      then (case saveAll n (leg n) db of
              (Some e, db') \<Rightarrow> (Some e, db')
            | (None, db') \<Rightarrow> saveEach ns leg db')
      else saveEach ns leg db)"

definition migrateFromLocalStorage :: "app \<Rightarrow> app" where
  "migrateFromLocalStorage a =
     (if truthyItem (migration_completed a) \<noteq> None then a
      else (case saveEach migrationOrder (legacy a) (idb a) of
              (Some e, db') \<Rightarrow> a\<lparr>idb := db'\<rparr>
            | (None, db') \<Rightarrow> a\<lparr>idb := db', migration_completed := Some ''true''\<rparr>))"

section \<open>The passenger import (processPassengersFromImport)\<close>

text \<open>
  A row of the parsed sheet is an object from column names to cell values. A cell is a
  string, a number or a boolean. A number is given by the two things the import observes of
  it: whether it is truthy (neither 0 nor \<open>NaN\<close>) and the string that \<open>String()\<close> gives for
  it. A column the row does not have reads as \<open>undefined\<close>.
\<close>

datatype cell = Str string | Num bool string | Bool bool

type_synonym row = "(string \<times> cell) list"

fun truthy :: "cell \<Rightarrow> bool" where
  "truthy (Str s) = (s \<noteq> [])"
| "truthy (Num nonzero rendering) = nonzero"
| "truthy (Bool b) = b"

text \<open>\<open>row[k1] || row[k2] || ...\<close>: the first truthy value, if there is one.\<close>

fun firstTruthy :: "row \<Rightarrow> string list \<Rightarrow> cell option" where
  "firstTruthy r [] = None"
| "firstTruthy r (k # ks) =
     (case map_of r k of
        Some v \<Rightarrow> if truthy v then Some v else firstTruthy r ks
      | None \<Rightarrow> firstTruthy r ks)"

text \<open>\<open>String(v)\<close> and \<open>trim\<close>.\<close>

fun toString :: "cell \<Rightarrow> string" where
  "toString (Str s) = s"
| "toString (Num nonzero rendering) = rendering"
| "toString (Bool b) = (if b then ''true'' else ''false'')"

definition isSpace :: "char \<Rightarrow> bool" where
  "isSpace c \<longleftrightarrow> c \<in> {CHR 0x09, CHR 0x0A, CHR 0x0B, CHR 0x0C, CHR 0x0D, CHR 0x20, CHR 0xA0}"

definition trim :: "string \<Rightarrow> string" where
  "trim s = rev (dropWhile isSpace (rev (dropWhile isSpace s)))"

definition nameOf :: "row \<Rightarrow> cell" where
  "nameOf r =
     (case firstTruthy r [''Nombres y Apellidos'', ''Nombre'', ''nombre'', ''NOMBRE'', ''Name'',
                          ''name''] of
        Some v \<Rightarrow> v | None \<Rightarrow> Str [])"

definition cedulaOf :: "row \<Rightarrow> string" where
  "cedulaOf r =
     (case firstTruthy r [''Cedula'', ''cedula'', ''CEDULA'', ''ID'', ''id''] of
        Some cedulaValue \<Rightarrow> trim (toString cedulaValue) | None \<Rightarrow> [])"

definition gerenciaOf :: "row \<Rightarrow> cell" where
  "gerenciaOf r =
     (case firstTruthy r [''Gerencia'', ''gerencia'', ''GERENCIA'', ''Department'',
                          ''department''] of
        Some v \<Rightarrow> v | None \<Rightarrow> Str [])"

record qrData =
  qr_cedula :: string
  qr_name :: cell
  qr_gerencia :: cell
  qr_timestamp :: string

text \<open>
  The passenger the import builds. Name and department are the cell values as read; the
  cedula is a string.
\<close>

record importedPassenger =
  ip_id :: string
  ip_name :: cell
  ip_cedula :: string
  ip_gerencia :: cell
  ip_qrCode :: string
  ip_createdAt :: string

text \<open>
  What the import takes from outside: \<open>generateQRCode\<close> (\<open>None\<close> when its promise rejects),
  the ids \<open>uuidv4\<close> hands out, by the number of passengers built so far, and the clock reading
  while the row at a given position is processed.
\<close>

record importEnv =
  generateQRCode :: "qrData \<Rightarrow> string option"
  uuidv4 :: "nat \<Rightarrow> string"
  isoAt :: "nat \<Rightarrow> string"

text \<open>The loop over the rows, from position \<open>i\<close>, with the set of cedulas and the result so far.\<close>

fun processRows :: "importEnv \<Rightarrow> nat \<Rightarrow> row list \<Rightarrow> string set \<Rightarrow> importedPassenger list
    \<Rightarrow> importedPassenger list" where
  "processRows env i [] existingCedulas newPassengers = newPassengers"
| "processRows env i (r # rows) existingCedulas newPassengers =
     (let name = nameOf r; cedula = cedulaOf r; gerencia = gerenciaOf r
      in if \<not> truthy name \<or> cedula = [] then
           processRows env (Suc i) rows existingCedulas newPassengers
         else if cedula \<in> existingCedulas then
           processRows env (Suc i) rows existingCedulas newPassengers
         else
           (case generateQRCode env \<lparr>qr_cedula = cedula, qr_name = name,
                   qr_gerencia = gerencia, qr_timestamp = isoAt env i\<rparr> of
              None \<Rightarrow> processRows env (Suc i) rows existingCedulas newPassengers
            | Some qrCode \<Rightarrow>
                processRows env (Suc i) rows (insert cedula existingCedulas)
                  (newPassengers @
                     [\<lparr>ip_id = uuidv4 env (length newPassengers), ip_name = name,
                       ip_cedula = cedula, ip_gerencia = gerencia, ip_qrCode = qrCode,
                       ip_createdAt = isoAt env i\<rparr>])))"

definition processPassengersFromImport :: "importEnv \<Rightarrow> passenger list \<Rightarrow> row list
    \<Rightarrow> importedPassenger list" where
  "processPassengersFromImport env existingPassengers data =
     processRows env 0 data (set (map p_cedula existingPassengers)) []"

section \<open>Auxiliary notions for the proofs\<close>

text \<open>
  \<open>advances ts ts'\<close>: every record of \<open>ts\<close> is still at its position in \<open>ts'\<close>, with the same
  id, and is finalized there if it was finalized in \<open>ts\<close>.
\<close>

definition advances :: "trip list \<Rightarrow> trip list \<Rightarrow> bool" where
  "advances ts ts' \<longleftrightarrow>
     length ts \<le> length ts'
     \<and> (\<forall>i < length ts. trip_id (ts' ! i) = trip_id (ts ! i)
            \<and> (status (ts ! i) = finalizado \<longrightarrow> status (ts' ! i) = finalizado))"

text \<open>The number a decimal numeral denotes; used to show that \<open>dec\<close> is injective.\<close>

definition undec :: "string \<Rightarrow> nat" where
  "undec s = foldl (\<lambda>a c. 10 * a + (of_char c - 48)) 0 s"

text \<open>
  Auxiliary notions for the migration: the last record of a list with a given id, and a
  record replaced by the last record of the list that has its id, if any.
\<close>

definition lastOf :: "obj list \<Rightarrow> string \<Rightarrow> obj option" where
  "lastOf L i = List.find (\<lambda>r. obj_id r = i) (rev L)"

definition settle :: "obj list \<Rightarrow> obj \<Rightarrow> obj" where
  "settle L x = (case lastOf L (obj_id x) of None \<Rightarrow> x | Some r \<Rightarrow> r)"

text \<open>A row has the data the import requires when it has a truthy name and a cedula.\<close>

definition hasEssentials :: "row \<Rightarrow> bool" where
  "hasEssentials r \<longleftrightarrow> truthy (nameOf r) \<and> cedulaOf r \<noteq> []"

section \<open>Concrete inputs used to run the operations\<close>

definition clockA :: clock where
  "clockA = \<lparr>nowMs = 1704103200000, nowISO = ''2024-01-01T10:00:00.000Z''\<rparr>"

definition clockB :: clock where
  "clockB = \<lparr>nowMs = 1704106800000, nowISO = ''2024-01-01T11:00:00.000Z''\<rparr>"

definition mkTrip :: "string \<Rightarrow> string option \<Rightarrow> string \<Rightarrow> status \<Rightarrow> string option \<Rightarrow> trip" where
  "mkTrip i g r s e =
     \<lparr>trip_id = i, groupId = g, trip_shift = Some manana, passengerId = ''p'' @ i,
      passengerName = ''Ana'', passengerCedula = ''100'', conductorId = ''u1'',
      conductorName = ''Luis'', ruta = r, startTime = ''2024-01-01T08:00:00.000Z'',
      endTime = e, status = s, createdAt = ''2024-01-01T08:00:00.000Z''\<rparr>"

text \<open>
  \<open>mkPage ts items\<close> is the page over a localStorage with the trips \<open>ts\<close> and the other keys
  \<open>items\<close>, in the state the component is initialised with (empty arrays, no group id) and
  with the morning shift selected. \<open>mounted st\<close> is the state \<open>loadData\<close> leaves from \<open>st\<close>.
\<close>

definition mkPage :: "trip list \<Rightarrow> (string \<rightharpoonup> string) \<Rightarrow> page" where
  "mkPage ts items =
     \<lparr>ls_trips = ts, ls_items = items,
      auth_user = Some \<lparr>u_id = ''u1'', u_name = ''Luis'', u_cedula = ''900''\<rparr>,
      activeTrips = [], passengers = Array [], conductors = Array [],
      currentGroupId = None, shift = Some manana\<rparr>"

definition mounted :: "page \<Rightarrow> page" where
  "mounted st = snd (loadData st)"

definition tripsA :: "trip list" where
  "tripsA = [mkTrip ''1'' (Some ''g'') ''R'' en_curso None,
             mkTrip ''2'' (Some ''g'') ''R'' finalizado (Some ''2024-01-01T09:00:00.000Z'')]"

definition paxA :: passenger where
  "paxA = \<lparr>p_id = ''p77'', p_name = ''Eva'', p_cedula = ''477'', p_gerencia = ''G'',
           p_qrCode = ''qr'', p_createdAt = ''2023-12-01T08:00:00.000Z''\<rparr>"







definition pageA :: page where
  "pageA = mkPage tripsA Map.empty"

definition opsA :: "op list" where
  "opsA = [Start clockA paxA, FinalizeOne clockB ''2'', SelectShift clockB (Some noche),
           FinalizeRoute True clockB ''R'', Start clockB paxA]"






text \<open>Records and a database used to run \<open>save\<close>.\<close>

definition passengerA :: obj where
  "passengerA = \<lparr>obj_id = ''a'', obj_props = [(''name'', ''Ana''), (''cedula'', ''12345678'')]\<rparr>"

definition passengerB :: obj where
  "passengerB = \<lparr>obj_id = ''b'', obj_props = [(''name'', ''Beto''), (''cedula'', ''12345678'')]\<rparr>"

definition passengerA2 :: obj where
  "passengerA2 = \<lparr>obj_id = ''a'', obj_props = [(''name'', ''Ana Maria''), (''cedula'', ''12345678'')]\<rparr>"

definition dbA :: database where
  "dbA = \<lparr>db_schema = onupgradeneeded [],
          db_content = (\<lambda>n. []) (Passengers := [passengerA])\<rparr>"

text \<open>
  Two states before the migration: in \<open>appA\<close> every legacy array can be saved; in \<open>appFail\<close>
  the legacy passengers hold a record whose cedula a stored passenger with another id owns.
\<close>

definition userU :: obj where
  "userU = \<lparr>obj_id = ''1'', obj_props = [(''name'', ''Administrador''), (''cedula'', ''12345678'')]\<rparr>"

definition passengerC :: obj where
  "passengerC = \<lparr>obj_id = ''c'', obj_props = [(''name'', ''Caro''), (''cedula'', ''555'')]\<rparr>"

definition appA :: app where
  "appA = \<lparr>idb = dbA, migration_completed = None,
           legacy = (\<lambda>n. []) (Users := [userU], Passengers := [passengerA2, passengerC])\<rparr>"

definition appFail :: app where
  "appFail = \<lparr>idb = dbA, migration_completed = None,
              legacy = (\<lambda>n. []) (Users := [userU], Passengers := [passengerC, passengerB])\<rparr>"

text \<open>A sheet of five rows and an environment to run the import on.\<close>

definition envA :: importEnv where
  "envA = \<lparr>generateQRCode = (\<lambda>q. Some (''QR'' @ qr_cedula q)),
            uuidv4 = (\<lambda>k. ''id'' @ dec k),
            isoAt = (\<lambda>i. ''2024-01-01T10:00:00.000Z'')\<rparr>"

definition rowAna :: row where
  "rowAna = [(''Nombre'', Str ''Ana''), (''Cedula'', Str '' 123 '')]"

definition rowBeto :: row where
  "rowBeto = [(''nombre'', Str ''Beto''), (''cedula'', Str ''123'')]"

definition rowCaro :: row where
  "rowCaro = [(''Nombre'', Str ''Caro'')]"

definition rowDani :: row where
  "rowDani = [(''Name'', Str ''Dani''), (''ID'', Str ''477'')]"

definition rowEli :: row where
  "rowEli = [(''NOMBRE'', Str ''Eli''), (''CEDULA'', Str ''900'')]"

definition dataA :: "row list" where
  "dataA = [rowAna, rowBeto, rowCaro, rowDani, rowEli]"

section \<open>Frame of finalizarViaje\<close>

lemma loadData_throws: "fst (loadData st) = Some TypeError"
  by (simp add: loadData_def)

lemma ls_trips_loadData: "ls_trips (snd (loadData st)) = ls_trips st"
  by (simp add: loadData_def)

lemma ls_items_loadData: "ls_items (snd (loadData st)) = ls_items st"
  by (simp add: loadData_def)

lemma ls_trips_finalizarViaje:
  "ls_trips (snd (finalizarViaje clk tripId st)) =
     map (\<lambda>t. if trip_id t = tripId then finalizeTrip clk t else t) (ls_trips st)"
  by (simp add: finalizarViaje_def Let_def ls_trips_loadData)

lemma fst_finalizarViaje: "fst (finalizarViaje clk tripId st) = Some TypeError"
  by (simp add: finalizarViaje_def Let_def loadData_throws)

lemma map_if_absent:
  "\<forall>t \<in> set ts. k t \<noteq> (i::string) \<Longrightarrow> map (\<lambda>t. if k t = i then f t else t) ts = ts"
  by (induction ts) auto

lemma trip_id_finalizeTrip: "trip_id (finalizeTrip clk t) = trip_id t"
  by (simp add: finalizeTrip_def)

lemma mounted_fields:
  "ls_trips (mounted st) = ls_trips st"
  "ls_items (mounted st) = ls_items st"
  "conductors (mounted st) = Promise"
  "activeTrips (mounted st) = filter (\<lambda>t. status t = en_curso) (ls_trips st)"
  "shift (mounted st) = shift st"
  by (simp_all add: mounted_def loadData_def)

text \<open>
  C10. \<open>finalizarViaje\<close> keeps the number of stored trips; every stored trip whose id differs
  from the given one is the same record afterwards; and when no stored trip has the given id
  the stored trips are unchanged. The call does not complete without error: after the write
  of the trips it calls \<open>loadData\<close>, which throws \<open>TypeError\<close>.
\<close>

theorem finalizarViaje_frame:
  "length (ls_trips (snd (finalizarViaje clk tripId st))) = length (ls_trips st)
   \<and> (\<forall>i < length (ls_trips st). trip_id (ls_trips st ! i) \<noteq> tripId \<longrightarrow>
         ls_trips (snd (finalizarViaje clk tripId st)) ! i = ls_trips st ! i)
   \<and> (tripId \<notin> trip_id ` set (ls_trips st) \<longrightarrow>
         ls_trips (snd (finalizarViaje clk tripId st)) = ls_trips st)
   \<and> fst (finalizarViaje clk tripId st) = Some TypeError"
proof -
  have "tripId \<notin> trip_id ` set (ls_trips st) \<Longrightarrow>
          map (\<lambda>t. if trip_id t = tripId then finalizeTrip clk t else t) (ls_trips st) = ls_trips st"
    by (rule map_if_absent) auto
  then show ?thesis
    by (simp add: ls_trips_finalizarViaje fst_finalizarViaje)
qed

theorem finalizarViaje_frame_witness:
  "1 < length tripsA \<and> trip_id (tripsA ! 1) \<noteq> ''1''
   \<and> ''7'' \<notin> trip_id ` set tripsA
   \<and> length (ls_trips (snd (finalizarViaje clockB ''1'' (mounted pageA)))) = 2
   \<and> ls_trips (snd (finalizarViaje clockB ''1'' (mounted pageA))) ! 1 = tripsA ! 1
   \<and> ls_trips (snd (finalizarViaje clockB ''7'' (mounted pageA))) = tripsA
   \<and> fst (finalizarViaje clockB ''7'' (mounted pageA)) = Some TypeError"
proof -
  have l: "ls_trips (mounted pageA) = tripsA"
    by (simp add: mounted_fields pageA_def mkPage_def)
  have h: "1 < length tripsA" "trip_id (tripsA ! 1) \<noteq> ''1''" "''7'' \<notin> trip_id ` set tripsA"
    "length tripsA = 2"
    by (simp_all add: tripsA_def mkTrip_def)
  note f1 = finalizarViaje_frame [of clockB "''1''" "mounted pageA", unfolded l]
  note f7 = finalizarViaje_frame [of clockB "''7''" "mounted pageA", unfolded l]
  from f1 h have a: "ls_trips (snd (finalizarViaje clockB ''1'' (mounted pageA))) ! 1 = tripsA ! 1"
    by blast
  from f1 h have b: "length (ls_trips (snd (finalizarViaje clockB ''1'' (mounted pageA)))) = 2"
    by simp
  from f7 h have c: "ls_trips (snd (finalizarViaje clockB ''7'' (mounted pageA))) = tripsA"
    by blast
  from f7 have d: "fst (finalizarViaje clockB ''7'' (mounted pageA)) = Some TypeError"
    by blast
  show ?thesis
    by (intro conjI) (fact h a b c d)+
qed

section \<open>finalizarViaje on a missing id and on a finalized trip\<close>

lemma ls_items_finalizarViaje: "ls_items (snd (finalizarViaje clk tripId st)) = ls_items st"
  by (simp add: finalizarViaje_def Let_def ls_items_loadData)

text \<open>
  C2, as stated, fails: for an id that no stored trip has, \<open>finalizarViaje\<close> does not report
  \<open>NotFound\<close>.
\<close>

theorem finalizarViaje_NotFound_counterexample:
  "''7'' \<notin> trip_id ` set (ls_trips (mounted pageA))
   \<and> fst (finalizarViaje clockB ''7'' (mounted pageA)) \<noteq> Some NotFound"
  by (simp add: fst_finalizarViaje mounted_fields pageA_def mkPage_def tripsA_def mkTrip_def)

text \<open>
  C2, amended. When no stored trip has the given id, \<open>finalizarViaje\<close> does not report
  \<open>NotFound\<close> (it never looks the id up), and it leaves the stored trips and every other
  localStorage key as they were.
\<close>

theorem finalizarViaje_missing_id:
  assumes "tripId \<notin> trip_id ` set (ls_trips st)"
  shows "fst (finalizarViaje clk tripId st) \<noteq> Some NotFound
         \<and> ls_trips (snd (finalizarViaje clk tripId st)) = ls_trips st
         \<and> ls_items (snd (finalizarViaje clk tripId st)) = ls_items st"
proof -
  from assms have "\<forall>t \<in> set (ls_trips st). trip_id t \<noteq> tripId"
    by auto
  then have "map (\<lambda>t. if trip_id t = tripId then finalizeTrip clk t else t) (ls_trips st) = ls_trips st"
    by (rule map_if_absent)
  then show ?thesis
    by (simp add: ls_trips_finalizarViaje fst_finalizarViaje ls_items_finalizarViaje)
qed

theorem finalizarViaje_missing_id_witness:
  "''9'' \<notin> trip_id ` set (ls_trips (mounted pageA))
   \<and> fst (finalizarViaje clockA ''9'' (mounted pageA)) \<noteq> Some NotFound
   \<and> ls_trips (snd (finalizarViaje clockA ''9'' (mounted pageA))) = tripsA"
proof -
  have l: "ls_trips (mounted pageA) = tripsA"
    by (simp add: mounted_fields pageA_def mkPage_def)
  have h: "''9'' \<notin> trip_id ` set (ls_trips (mounted pageA))"
    by (simp add: l tripsA_def mkTrip_def)
  note w = finalizarViaje_missing_id [OF h, of clockA]
  show ?thesis
    by (intro conjI) (fact h w [THEN conjunct1] w [THEN conjunct2, THEN conjunct1, unfolded l])+
qed

lemma finalizeTrip_twice: "finalizeTrip clk2 (finalizeTrip clk t) = finalizeTrip clk2 t"
  by (simp add: finalizeTrip_def)

lemma finalize_step_twice:
  "(\<lambda>t. if trip_id t = tripId then finalizeTrip clk2 t else t)
     \<circ> (\<lambda>t. if trip_id t = tripId then finalizeTrip clk t else t)
   = (\<lambda>t. if trip_id t = tripId then finalizeTrip clk2 t else t)"
  by (rule ext) (simp add: trip_id_finalizeTrip finalizeTrip_twice)

lemma finalizarViaje_last_wins:
  "ls_trips (snd (finalizarViaje clk2 tripId (snd (finalizarViaje clk tripId st))))
     = ls_trips (snd (finalizarViaje clk2 tripId st))"
  by (simp add: ls_trips_finalizarViaje finalize_step_twice)

text \<open>
  C3, as stated, fails: on a trip that is already finalized, \<open>finalizarViaje\<close> overwrites the
  end timestamp, so the stored record changes, and a second call at a later time leaves
  stored trips other than those the first call left.
\<close>

theorem finalizarViaje_refinalize_counterexample:
  "status (tripsA ! 1) = finalizado \<and> trip_id (tripsA ! 1) = ''2''
   \<and> ls_trips (mounted pageA) = tripsA
   \<and> ls_trips (snd (finalizarViaje clockB ''2'' (mounted pageA))) ! 1 \<noteq> tripsA ! 1
   \<and> ls_trips (snd (finalizarViaje clockB ''2'' (snd (finalizarViaje clockA ''2'' (mounted pageA)))))
       \<noteq> ls_trips (snd (finalizarViaje clockA ''2'' (mounted pageA)))"
  by (simp add: ls_trips_finalizarViaje mounted_fields pageA_def mkPage_def tripsA_def
        mkTrip_def finalizeTrip_def clockA_def clockB_def)

text \<open>
  C3, amended. On the id of a stored trip that is already finalized, \<open>finalizarViaje\<close> leaves
  that record as it was except for its end timestamp, which becomes the time of the call (the
  status stays finalized). The trips stored after two calls in a row are those stored after
  the second call alone, and no other localStorage key changes.
\<close>

theorem finalizarViaje_refinalize:
  assumes "i < length (ls_trips st)"
    and "trip_id (ls_trips st ! i) = tripId"
    and "status (ls_trips st ! i) = finalizado"
  shows "ls_trips (snd (finalizarViaje clk tripId st)) ! i
               = (ls_trips st ! i)\<lparr>endTime := Some (nowISO clk)\<rparr>
         \<and> status (ls_trips (snd (finalizarViaje clk tripId st)) ! i) = finalizado
         \<and> ls_trips (snd (finalizarViaje clk2 tripId (snd (finalizarViaje clk tripId st))))
               = ls_trips (snd (finalizarViaje clk2 tripId st))
         \<and> ls_items (snd (finalizarViaje clk2 tripId (snd (finalizarViaje clk tripId st))))
               = ls_items st"
proof -
  have "finalizeTrip clk (ls_trips st ! i) = (ls_trips st ! i)\<lparr>endTime := Some (nowISO clk)\<rparr>"
    using assms(3) by (simp add: finalizeTrip_def)
  with assms(1,2,3)
  have a: "ls_trips (snd (finalizarViaje clk tripId st)) ! i
               = (ls_trips st ! i)\<lparr>endTime := Some (nowISO clk)\<rparr>"
    and b: "status (ls_trips (snd (finalizarViaje clk tripId st)) ! i) = finalizado"
    by (simp_all add: ls_trips_finalizarViaje)
  have c: "ls_items (snd (finalizarViaje clk2 tripId (snd (finalizarViaje clk tripId st))))
               = ls_items st"
    by (simp add: ls_items_finalizarViaje)
  show ?thesis
    by (intro conjI) (fact a b c finalizarViaje_last_wins)+
qed

theorem finalizarViaje_refinalize_witness:
  "1 < length (ls_trips (mounted pageA))
   \<and> trip_id (ls_trips (mounted pageA) ! 1) = ''2''
   \<and> status (ls_trips (mounted pageA) ! 1) = finalizado
   \<and> endTime (ls_trips (snd (finalizarViaje clockB ''2'' (mounted pageA))) ! 1)
         = Some ''2024-01-01T11:00:00.000Z''"
proof -
  have h: "1 < length (ls_trips (mounted pageA))"
    "trip_id (ls_trips (mounted pageA) ! 1) = ''2''"
    "status (ls_trips (mounted pageA) ! 1) = finalizado"
    by (simp_all add: mounted_fields pageA_def mkPage_def tripsA_def mkTrip_def)
  from finalizarViaje_refinalize [OF h, of clockB clockB]
  have "endTime (ls_trips (snd (finalizarViaje clockB ''2'' (mounted pageA))) ! 1)
         = Some ''2024-01-01T11:00:00.000Z''"
    by (simp add: clockB_def)
  with h show ?thesis
    by simp
qed

section \<open>Starting a trip: the capacity of a group\<close>

lemma iniciarViaje_promise:
  "conductors st = Promise \<Longrightarrow> iniciarViaje clk p st = (Some TypeError, st)"
  by (simp add: iniciarViaje_def)

lemma iniciarViaje_no_shift:
  "conductors st = Array cs \<Longrightarrow> shift st = None \<Longrightarrow> iniciarViaje clk p st = (Some InvalidState, st)"
  by (simp add: iniciarViaje_def Let_def)

lemma iniciarViaje_full:
  assumes "conductors st = Array cs" and "shift st = Some sh"
    and "18 \<le> length (inGroup (derivedGroup clk cs st) (ls_trips st))"
  shows "fst (iniciarViaje clk p st) = Some CapacityExceeded"
    and "ls_trips (snd (iniciarViaje clk p st)) = ls_trips st"
  using assms
  by (simp_all add: iniciarViaje_def derivedGroup_def inGroup_def Let_def case_prod_beta)

lemma iniciarViaje_room:
  assumes "conductors st = Array cs" and "shift st = Some sh"
    and "length (inGroup (derivedGroup clk cs st) (ls_trips st)) < 18"
  shows "\<exists>t. ls_trips (snd (iniciarViaje clk p st)) = ls_trips st @ [t]
             \<and> status t = en_curso \<and> endTime t = None
             \<and> groupId t = Some (derivedGroup clk cs st)
             \<and> trip_shift t = Some sh \<and> passengerId t = p_id p"
  using assms
  by (simp add: iniciarViaje_def derivedGroup_def inGroup_def Let_def ls_trips_loadData
        case_prod_beta)

lemma buildGroupStorageKey_day:
  "take 10 (nowISO clk2) = take 10 (nowISO clk1) \<Longrightarrow>
     buildGroupStorageKey clk2 cid r sh = buildGroupStorageKey clk1 cid r sh"
  by (simp add: buildGroupStorageKey_def)

lemma truthyItem_minted: "s \<noteq> [] \<Longrightarrow> truthyItem (Some s) = Some s"
  by (simp add: truthyItem_def)

lemma ensureGroup_again:
  assumes "take 10 (nowISO clk2) = take 10 (nowISO clk1)"
  shows "ensureGroup clk2 cid r sh (snd (ensureGroup clk1 cid r sh items))
           = (fst (ensureGroup clk1 cid r sh items), snd (ensureGroup clk1 cid r sh items))"
proof (cases "truthyItem (items (buildGroupStorageKey clk1 cid r sh))")
  case None
  then show ?thesis
    by (simp add: ensureGroup_def Let_def buildGroupStorageKey_day [OF assms] truthyItem_minted)
next
  case (Some g)
  then show ?thesis
    by (simp add: ensureGroup_def Let_def buildGroupStorageKey_day [OF assms])
qed



lemma ls_trips_finalizarRuta:
  "ls_trips (snd (finalizarRuta True clk r st))
     = map (\<lambda>t. if (\<exists>x \<in> set (filter (\<lambda>t. ruta t = r) (activeTrips st)). trip_id x = trip_id t)
                then finalizeTrip clk t else t) (ls_trips st)"
  by (cases "conductors st") (simp_all add: finalizarRuta_def Let_def ls_trips_loadData)

lemma finalizarRuta_declined: "finalizarRuta False clk r st = (None, st)"
  by (simp add: finalizarRuta_def)

lemma ls_trips_selectShift: "ls_trips (snd (selectShift clk v st)) = ls_trips st"
  by (cases "conductors st") (simp_all add: selectShift_def Let_def)



lemma snd_run_Cons: "snd (run (x # xs) st) = snd (run xs (snd (step x st)))"
  by (simp add: case_prod_beta Let_def)










section \<open>The status of a trip only moves from active to finalized\<close>

lemma advances_refl: "advances ts ts"
  by (simp add: advances_def)

lemma advances_trans: "advances ts ts' \<Longrightarrow> advances ts' ts'' \<Longrightarrow> advances ts ts''"
  by (auto simp: advances_def)

lemma advances_map_append:
  assumes "\<And>t. trip_id (f t) = trip_id t"
    and "\<And>t. status t = finalizado \<Longrightarrow> status (f t) = finalizado"
  shows "advances ts (map f ts @ extra)"
  using assms by (simp add: advances_def nth_append)

lemma status_finalizeTrip: "status (finalizeTrip clk t) = finalizado"
  by (simp add: finalizeTrip_def)

lemma advances_iniciarViaje: "advances (ls_trips st) (ls_trips (snd (iniciarViaje clk p st)))"
proof (cases "conductors st")
  case Promise
  then show ?thesis
    by (simp add: iniciarViaje_promise advances_refl)
next
  case (Array cs)
  show ?thesis
  proof (cases "shift st")
    case None
    with Array show ?thesis
      by (simp add: iniciarViaje_no_shift advances_refl)
  next
    case (Some sh)
    show ?thesis
    proof (cases "18 \<le> length (inGroup (derivedGroup clk cs st) (ls_trips st))")
      case True
      from iniciarViaje_full(2) [OF Array Some True] show ?thesis
        by (simp add: advances_refl)
    next
      case False
      then have "length (inGroup (derivedGroup clk cs st) (ls_trips st)) < 18"
        by simp
      from iniciarViaje_room [OF Array Some this, of p]
      obtain t where "ls_trips (snd (iniciarViaje clk p st)) = map (\<lambda>t. t) (ls_trips st) @ [t]"
        by auto
      then show ?thesis
        by (simp only: advances_map_append)
    qed
  qed
qed

lemma advances_finalizarViaje:
  "advances (ls_trips st) (ls_trips (snd (finalizarViaje clk tripId st)))"
proof -
  have "advances (ls_trips st)
          (map (\<lambda>t. if trip_id t = tripId then finalizeTrip clk t else t) (ls_trips st) @ [])"
    by (rule advances_map_append) (simp_all add: trip_id_finalizeTrip status_finalizeTrip)
  then show ?thesis
    by (simp add: ls_trips_finalizarViaje)
qed

lemma advances_finalizarRuta:
  "advances (ls_trips st) (ls_trips (snd (finalizarRuta confirmed clk r st)))"
proof (cases confirmed)
  case True
  have "advances (ls_trips st)
          (map (\<lambda>t. if (\<exists>x \<in> set (filter (\<lambda>t. ruta t = r) (activeTrips st)). trip_id x = trip_id t)
                    then finalizeTrip clk t else t) (ls_trips st) @ [])"
    by (rule advances_map_append) (simp_all add: trip_id_finalizeTrip status_finalizeTrip)
  with True show ?thesis
    by (simp add: ls_trips_finalizarRuta)
next
  case False
  then show ?thesis
    by (simp add: finalizarRuta_declined advances_refl)
qed

lemma advances_step: "advances (ls_trips st) (ls_trips (snd (step x st)))"
  by (cases x)
     (simp_all add: advances_iniciarViaje advances_finalizarViaje advances_finalizarRuta
        ls_trips_selectShift advances_refl)

lemma advances_run: "advances (ls_trips st) (ls_trips (snd (run ops st)))"
proof (induction ops arbitrary: st)
  case Nil
  show ?case by (simp add: advances_refl)
next
  case (Cons x ops)
  from advances_trans [OF advances_step Cons.IH] show ?case
    unfolding snd_run_Cons .
qed

text \<open>
  C8. Along every sequence of page operations (start, finalize one, finalize route, and the
  selection of a shift), each stored trip keeps its position and its id, a trip that is
  finalized stays finalized in every later state, and the only change of status that occurs
  is from active (\<open>en_curso\<close>) to finalized.
\<close>

theorem status_monotonic:
  "length (ls_trips st) \<le> length (ls_trips (snd (run ops st)))
   \<and> (\<forall>i < length (ls_trips st).
         trip_id (ls_trips (snd (run ops st)) ! i) = trip_id (ls_trips st ! i)
         \<and> (status (ls_trips st ! i) = finalizado \<longrightarrow>
              status (ls_trips (snd (run ops st)) ! i) = finalizado)
         \<and> (status (ls_trips (snd (run ops st)) ! i) \<noteq> status (ls_trips st ! i) \<longrightarrow>
              status (ls_trips st ! i) = en_curso
              \<and> status (ls_trips (snd (run ops st)) ! i) = finalizado))"
proof -
  have m: "status a \<noteq> status b \<Longrightarrow> (status b = finalizado \<longrightarrow> status a = finalizado) \<Longrightarrow>
             status b = en_curso \<and> status a = finalizado" for a b :: trip
    by (cases "status a"; cases "status b") simp_all
  from advances_run [of st ops] show ?thesis
    unfolding advances_def using m by blast
qed

theorem status_monotonic_witness:
  "1 < length (ls_trips pageA) \<and> status (ls_trips pageA ! 1) = finalizado
   \<and> trip_id (ls_trips (snd (run opsA pageA)) ! 1) = ''2''
   \<and> status (ls_trips (snd (run opsA pageA)) ! 1) = finalizado"
proof -
  have h: "1 < length (ls_trips pageA)" "status (ls_trips pageA ! 1) = finalizado"
    "trip_id (ls_trips pageA ! 1) = ''2''"
    by (simp_all add: pageA_def mkPage_def tripsA_def mkTrip_def)
  from status_monotonic [of pageA opsA] h(1)
  have "trip_id (ls_trips (snd (run opsA pageA)) ! 1) = trip_id (ls_trips pageA ! 1)
        \<and> (status (ls_trips pageA ! 1) = finalizado \<longrightarrow>
             status (ls_trips (snd (run opsA pageA)) ! 1) = finalizado)"
    by blast
  with h show ?thesis
    by simp
qed

section \<open>Finalizing a route\<close>

lemma undec_dec: "undec (dec n) = n"
proof (induction n rule: dec.induct)
  case (1 n)
  show ?case
  proof (cases "n < 10")
    case True
    then show ?thesis
      by (simp add: dec.simps [of n] undec_def digit_def)
  next
    case False
    with 1 have "undec (dec (n div 10)) = n div 10"
      by simp
    with False show ?thesis
      by (simp add: dec.simps [of n] undec_def digit_def)
  qed
qed

lemma dec_inj: "dec m = dec n \<Longrightarrow> m = n"
  by (metis undec_dec)

lemma minted_neq: "m \<noteq> n \<Longrightarrow> cid @ ''-'' @ dec m \<noteq> cid @ ''-'' @ dec n"
  by (auto dest: dec_inj)





lemma ensureGroup_empty:
  "ensureGroup clk cid r sh Map.empty
     = (cid @ ''-'' @ dec (nowMs clk),
        Map.empty(buildGroupStorageKey clk cid r sh \<mapsto> cid @ ''-'' @ dec (nowMs clk)))"
  by (simp add: ensureGroup_def Let_def truthyItem_def)




section \<open>The group key\<close>

lemma sep_split:
  "c \<notin> set a \<Longrightarrow> c \<notin> set b \<Longrightarrow> a @ c # u = b @ c # v \<Longrightarrow> a = b \<and> u = v"
proof (induction a arbitrary: b)
  case Nil
  then show ?case by (cases b) auto
next
  case (Cons x a)
  then show ?case by (cases b) auto
qed

lemma shift_segment_inj:
  assumes "A @ ''_'' @ (case s of None \<Rightarrow> ''sin_turno'' | Some x \<Rightarrow> shift_str x) @ ''_''
           = B @ ''_'' @ (case s' of None \<Rightarrow> ''sin_turno'' | Some x \<Rightarrow> shift_str x) @ ''_''"
  shows "s = s' \<and> A = B"
proof -
  from assms have "rev (A @ ''_'' @ (case s of None \<Rightarrow> ''sin_turno'' | Some x \<Rightarrow> shift_str x) @ ''_'')
           = rev (B @ ''_'' @ (case s' of None \<Rightarrow> ''sin_turno'' | Some x \<Rightarrow> shift_str x) @ ''_'')"
    by (rule arg_cong)
  then show ?thesis
    by (cases s; cases s'; simp add: shift_str_def split: shift.splits)
qed

lemma shift_keys_differ:
  "s \<noteq> s' \<Longrightarrow> buildGroupStorageKey clk c r s \<noteq> buildGroupStorageKey clk c r s'"
  by (cases s; cases s') (auto simp: buildGroupStorageKey_def shift_str_def split: shift.splits)

lemma buildGroupStorageKey_inj:
  assumes "CHR ''_'' \<notin> set c" and "CHR ''_'' \<notin> set c'" and "r \<noteq> []" and "r' \<noteq> []"
    and "10 \<le> length (nowISO clk)" and "10 \<le> length (nowISO clk')"
    and "buildGroupStorageKey clk c r s = buildGroupStorageKey clk' c' r' s'"
  shows "c = c' \<and> r = r' \<and> s = s' \<and> take 10 (nowISO clk) = take 10 (nowISO clk')"
proof -
  let ?seg = "\<lambda>s. case s of None \<Rightarrow> ''sin_turno'' | Some x \<Rightarrow> shift_str x"
  let ?d = "take 10 (nowISO clk)" and ?d' = "take 10 (nowISO clk')"
  from assms(3,4,7)
  have "c @ CHR ''_'' # ((r @ ''_'' @ ?seg s @ ''_'') @ ?d)
          = c' @ CHR ''_'' # ((r' @ ''_'' @ ?seg s' @ ''_'') @ ?d')"
    by (simp add: buildGroupStorageKey_def)
  from sep_split [OF assms(1,2) this]
  have c: "c = c'" and x: "(r @ ''_'' @ ?seg s @ ''_'') @ ?d = (r' @ ''_'' @ ?seg s' @ ''_'') @ ?d'"
    by simp_all
  from assms(5,6) have "length ?d = length ?d'"
    by simp
  then have "((r @ ''_'' @ ?seg s @ ''_'') @ ?d = (r' @ ''_'' @ ?seg s' @ ''_'') @ ?d')
               = (r @ ''_'' @ ?seg s @ ''_'' = r' @ ''_'' @ ?seg s' @ ''_'' \<and> ?d = ?d')"
    by (intro append_eq_append_conv disjI2)
  with x have y: "r @ ''_'' @ ?seg s @ ''_'' = r' @ ''_'' @ ?seg s' @ ''_''" and d: "?d = ?d'"
    by blast+
  from shift_segment_inj [OF y] c d show ?thesis
    by simp
qed

lemma ensureGroup_other_shift:
  assumes "s \<noteq> s'" and "take 10 (nowISO clk2) = take 10 (nowISO clk1)"
    and "truthyItem (items (buildGroupStorageKey clk1 c r s)) = None"
    and "truthyItem (items (buildGroupStorageKey clk1 c r s')) = None"
  shows "fst (ensureGroup clk1 c r s items) = c @ ''-'' @ dec (nowMs clk1)"
    and "fst (ensureGroup clk2 c r s' (snd (ensureGroup clk1 c r s items)))
           = c @ ''-'' @ dec (nowMs clk2)"
proof -
  from assms(1) have k: "buildGroupStorageKey clk1 c r s' \<noteq> buildGroupStorageKey clk1 c r s"
    by (simp add: shift_keys_differ)
  show "fst (ensureGroup clk1 c r s items) = c @ ''-'' @ dec (nowMs clk1)"
    using assms(3) by (simp add: ensureGroup_def Let_def)
  show "fst (ensureGroup clk2 c r s' (snd (ensureGroup clk1 c r s items)))
           = c @ ''-'' @ dec (nowMs clk2)"
    using assms(3,4) k
    by (simp add: ensureGroup_def Let_def buildGroupStorageKey_day [OF assms(2)])
qed

text \<open>
  C5, as stated, fails in two ways. The key joins its parts with underscores, so two different
  (conductor, route) pairs that distribute an underscore differently get the same key. And a
  group id minted for the other shift is the conductor id and the clock reading, which is the
  first group id again when both are minted at the same reading.
\<close>

theorem buildGroupStorageKey_counterexample:
  "(''a_b'', ''c'') \<noteq> (''a'', ''b_c'')
   \<and> buildGroupStorageKey clockA ''a_b'' ''c'' (Some manana)
       = buildGroupStorageKey clockA ''a'' ''b_c'' (Some manana)
   \<and> fst (ensureGroup clockA ''c1'' ''R'' (Some noche)
            (snd (ensureGroup clockA ''c1'' ''R'' (Some manana) Map.empty)))
       = fst (ensureGroup clockA ''c1'' ''R'' (Some manana) Map.empty)"
proof -
  have "fst (ensureGroup clockA ''c1'' ''R'' (Some noche)
            (snd (ensureGroup clockA ''c1'' ''R'' (Some manana) Map.empty)))
       = ''c1'' @ ''-'' @ dec (nowMs clockA)"
    by (rule ensureGroup_other_shift(2)) (simp_all add: truthyItem_def)
  then show ?thesis
    by (simp add: ensureGroup_empty buildGroupStorageKey_def)
qed

text \<open>
  C5, amended. The key is a function of the conductor id, the route, the shift and the day
  (the first ten characters of the ISO time) alone. Two lookups-or-mints for the same
  conductor, route and shift on the same day return the same group id. Keys for different
  shifts differ, and a lookup-or-mint for the other shift on the same day returns a different
  group id when neither shift had a binding and the two ids are minted at different clock
  readings. Distinct tuples map to distinct keys when the conductor ids contain no underscore
  and the routes are not empty.
\<close>

theorem buildGroupStorageKey_properties:
  "(take 10 (nowISO clk2) = take 10 (nowISO clk1) \<longrightarrow>
      buildGroupStorageKey clk2 c r s = buildGroupStorageKey clk1 c r s
      \<and> fst (ensureGroup clk2 c r s (snd (ensureGroup clk1 c r s items)))
          = fst (ensureGroup clk1 c r s items))
   \<and> (s \<noteq> s' \<longrightarrow> buildGroupStorageKey clk1 c r s \<noteq> buildGroupStorageKey clk1 c r s')
   \<and> (s \<noteq> s' \<and> take 10 (nowISO clk2) = take 10 (nowISO clk1)
        \<and> truthyItem (items (buildGroupStorageKey clk1 c r s)) = None
        \<and> truthyItem (items (buildGroupStorageKey clk1 c r s')) = None
        \<and> nowMs clk2 \<noteq> nowMs clk1 \<longrightarrow>
      fst (ensureGroup clk2 c r s' (snd (ensureGroup clk1 c r s items)))
        \<noteq> fst (ensureGroup clk1 c r s items))
   \<and> (CHR ''_'' \<notin> set c \<and> CHR ''_'' \<notin> set c2 \<and> r \<noteq> [] \<and> r2 \<noteq> []
        \<and> 10 \<le> length (nowISO clk1) \<and> 10 \<le> length (nowISO clk3)
        \<and> buildGroupStorageKey clk1 c r s = buildGroupStorageKey clk3 c2 r2 s2 \<longrightarrow>
      c = c2 \<and> r = r2 \<and> s = s2 \<and> take 10 (nowISO clk1) = take 10 (nowISO clk3))"
proof (intro conjI impI)
  assume d: "take 10 (nowISO clk2) = take 10 (nowISO clk1)"
  show "buildGroupStorageKey clk2 c r s = buildGroupStorageKey clk1 c r s"
    by (rule buildGroupStorageKey_day [OF d])
  show "fst (ensureGroup clk2 c r s (snd (ensureGroup clk1 c r s items)))
          = fst (ensureGroup clk1 c r s items)"
    by (simp add: ensureGroup_again [OF d])
next
  assume "s \<noteq> s'"
  then show "buildGroupStorageKey clk1 c r s \<noteq> buildGroupStorageKey clk1 c r s'"
    by (rule shift_keys_differ)
next
  assume h: "s \<noteq> s' \<and> take 10 (nowISO clk2) = take 10 (nowISO clk1)
        \<and> truthyItem (items (buildGroupStorageKey clk1 c r s)) = None
        \<and> truthyItem (items (buildGroupStorageKey clk1 c r s')) = None
        \<and> nowMs clk2 \<noteq> nowMs clk1"
  then have a: "s \<noteq> s'" "take 10 (nowISO clk2) = take 10 (nowISO clk1)"
    "truthyItem (items (buildGroupStorageKey clk1 c r s)) = None"
    "truthyItem (items (buildGroupStorageKey clk1 c r s')) = None"
    by simp_all
  have "fst (ensureGroup clk1 c r s items) = c @ ''-'' @ dec (nowMs clk1)"
    and "fst (ensureGroup clk2 c r s' (snd (ensureGroup clk1 c r s items)))
           = c @ ''-'' @ dec (nowMs clk2)"
    by (rule ensureGroup_other_shift [OF a])+
  moreover from h have "c @ ''-'' @ dec (nowMs clk2) \<noteq> c @ ''-'' @ dec (nowMs clk1)"
    by (intro minted_neq) simp
  ultimately show "fst (ensureGroup clk2 c r s' (snd (ensureGroup clk1 c r s items)))
        \<noteq> fst (ensureGroup clk1 c r s items)"
    by simp
next
  assume h: "CHR ''_'' \<notin> set c \<and> CHR ''_'' \<notin> set c2 \<and> r \<noteq> [] \<and> r2 \<noteq> []
        \<and> 10 \<le> length (nowISO clk1) \<and> 10 \<le> length (nowISO clk3)
        \<and> buildGroupStorageKey clk1 c r s = buildGroupStorageKey clk3 c2 r2 s2"
  then have "c = c2 \<and> r = r2 \<and> s = s2 \<and> take 10 (nowISO clk1) = take 10 (nowISO clk3)"
    by (intro buildGroupStorageKey_inj) simp_all
  then show "c = c2" and "r = r2" and "s = s2"
    and "take 10 (nowISO clk1) = take 10 (nowISO clk3)"
    by simp_all
qed

theorem buildGroupStorageKey_properties_witness:
  "take 10 (nowISO clockB) = take 10 (nowISO clockA)
   \<and> Some manana \<noteq> Some noche
   \<and> truthyItem (Map.empty (buildGroupStorageKey clockA ''c1'' ''R'' (Some manana))) = None
   \<and> truthyItem (Map.empty (buildGroupStorageKey clockA ''c1'' ''R'' (Some noche))) = None
   \<and> nowMs clockB \<noteq> nowMs clockA
   \<and> CHR ''_'' \<notin> set ''c1'' \<and> ''R'' \<noteq> []
   \<and> 10 \<le> length (nowISO clockA) \<and> 10 \<le> length (nowISO clockB)
   \<and> buildGroupStorageKey clockA ''c1'' ''R'' (Some manana)
       = buildGroupStorageKey clockB ''c1'' ''R'' (Some manana)
   \<and> fst (ensureGroup clockB ''c1'' ''R'' (Some manana)
            (snd (ensureGroup clockA ''c1'' ''R'' (Some manana) Map.empty)))
       = fst (ensureGroup clockA ''c1'' ''R'' (Some manana) Map.empty)
   \<and> buildGroupStorageKey clockA ''c1'' ''R'' (Some manana)
       \<noteq> buildGroupStorageKey clockA ''c1'' ''R'' (Some noche)
   \<and> fst (ensureGroup clockB ''c1'' ''R'' (Some noche)
            (snd (ensureGroup clockA ''c1'' ''R'' (Some manana) Map.empty)))
       \<noteq> fst (ensureGroup clockA ''c1'' ''R'' (Some manana) Map.empty)"
proof -
  have day: "take 10 (nowISO clockB) = take 10 (nowISO clockA)"
    and n: "nowMs clockB \<noteq> nowMs clockA"
    and l: "10 \<le> length (nowISO clockA)" "10 \<le> length (nowISO clockB)"
    by (simp_all add: clockA_def clockB_def)
  have s: "Some manana \<noteq> Some noche"
    by simp
  have e: "truthyItem (Map.empty (buildGroupStorageKey clockA ''c1'' ''R'' (Some manana))) = None"
    "truthyItem (Map.empty (buildGroupStorageKey clockA ''c1'' ''R'' (Some noche))) = None"
    by (simp_all add: truthyItem_def)
  have u: "CHR ''_'' \<notin> set ''c1''" "''R'' \<noteq> []"
    by simp_all
  note w = buildGroupStorageKey_properties [where ?clk1.0 = clockA and ?clk2.0 = clockB
      and c = "''c1''" and r = "''R''" and s = "Some manana" and s' = "Some noche"
      and items = Map.empty and ?c2.0 = "''c1''" and ?r2.0 = "''R''" and ?s2.0 = "Some manana"
      and ?clk3.0 = clockB]
  note w1 = w [THEN conjunct1, THEN mp, OF day]
  note w2 = w [THEN conjunct2, THEN conjunct1, THEN mp, OF s]
  have "Some manana \<noteq> Some noche \<and> take 10 (nowISO clockB) = take 10 (nowISO clockA)
        \<and> truthyItem (Map.empty (buildGroupStorageKey clockA ''c1'' ''R'' (Some manana))) = None
        \<and> truthyItem (Map.empty (buildGroupStorageKey clockA ''c1'' ''R'' (Some noche))) = None
        \<and> nowMs clockB \<noteq> nowMs clockA"
    by (intro conjI) (fact s day e n)+
  note w3 = w [THEN conjunct2, THEN conjunct2, THEN conjunct1, THEN mp, OF this]
  from w1 have k: "buildGroupStorageKey clockA ''c1'' ''R'' (Some manana)
       = buildGroupStorageKey clockB ''c1'' ''R'' (Some manana)"
    by simp
  show ?thesis
    by (intro conjI) (fact day s e n u l k w1 [THEN conjunct2] w2 w3)+
qed

section \<open>Uniqueness of the cedula on put\<close>

lemma cedula_stores:
  assumes "n = Users \<or> n = Passengers \<or> n = Conductors"
  shows "map_of (onupgradeneeded []) n
           = Some [\<lparr>ix_name = ''cedula'', ix_keyPath = ''cedula'', ix_unique = True\<rparr>]"
  using assms by (auto simp: onupgradeneeded_def createStore_def Let_def)

lemma violates_cedula:
  "violates [\<lparr>ix_name = ''cedula'', ix_keyPath = ''cedula'', ix_unique = True\<rparr>] r S
     \<longleftrightarrow> (\<exists>x \<in> set S. obj_id x \<noteq> obj_id r \<and> indexKey ''cedula'' r \<noteq> None
                       \<and> indexKey ''cedula'' x = indexKey ''cedula'' r)"
  by (auto simp: violates_def split: option.splits)

text \<open>
  C7. In the stores that \<open>init\<close> creates with a unique index on \<open>cedula\<close> (users, passengers,
  conductors), \<open>save\<close> of a record fails with \<open>ConstraintError\<close> and leaves the database
  unchanged when a stored record with another id has the same cedula. Otherwise it succeeds,
  touches no other store, and replaces the stored record that has the id of the given record
  (or adds the record when no stored record has that id).
\<close>

theorem save_unique_cedula:
  assumes "db_schema db = onupgradeneeded []"
    and "n = Users \<or> n = Passengers \<or> n = Conductors"
  shows "((\<exists>x \<in> set (db_content db n). obj_id x \<noteq> obj_id r \<and> indexKey ''cedula'' r \<noteq> None
             \<and> indexKey ''cedula'' x = indexKey ''cedula'' r) \<longrightarrow>
            save n r db = (Some ConstraintError, db))
       \<and> (\<not> (\<exists>x \<in> set (db_content db n). obj_id x \<noteq> obj_id r \<and> indexKey ''cedula'' r \<noteq> None
                \<and> indexKey ''cedula'' x = indexKey ''cedula'' r) \<longrightarrow>
            fst (save n r db) = None
            \<and> db_schema (snd (save n r db)) = db_schema db
            \<and> (\<forall>m. m \<noteq> n \<longrightarrow> db_content (snd (save n r db)) m = db_content db m)
            \<and> (obj_id r \<in> obj_id ` set (db_content db n) \<longrightarrow>
                 db_content (snd (save n r db)) n
                   = map (\<lambda>x. if obj_id x = obj_id r then r else x) (db_content db n))
            \<and> (obj_id r \<notin> obj_id ` set (db_content db n) \<longrightarrow>
                 db_content (snd (save n r db)) n = db_content db n @ [r]))"
  using assms(1) cedula_stores [OF assms(2)]
  by (simp add: save_def putObj_def violates_cedula upsert_def)

theorem save_unique_cedula_witness:
  "db_schema dbA = onupgradeneeded []
   \<and> passengerA \<in> set (db_content dbA Passengers)
   \<and> obj_id passengerA \<noteq> obj_id passengerB
   \<and> indexKey ''cedula'' passengerB = Some ''12345678''
   \<and> indexKey ''cedula'' passengerA = indexKey ''cedula'' passengerB
   \<and> save Passengers passengerB dbA = (Some ConstraintError, dbA)
   \<and> obj_id passengerA2 \<in> obj_id ` set (db_content dbA Passengers)
   \<and> fst (save Passengers passengerA2 dbA) = None
   \<and> db_content (snd (save Passengers passengerA2 dbA)) Passengers = [passengerA2]"
proof -
  have sch: "db_schema dbA = onupgradeneeded []"
    and c: "db_content dbA Passengers = [passengerA]"
    by (simp_all add: dbA_def)
  have k: "obj_id passengerA \<noteq> obj_id passengerB"
    "indexKey ''cedula'' passengerB = Some ''12345678''"
    "indexKey ''cedula'' passengerA = indexKey ''cedula'' passengerB"
    "obj_id passengerA2 = obj_id passengerA"
    "indexKey ''cedula'' passengerA2 = Some ''12345678''"
    by (simp_all add: passengerA_def passengerB_def passengerA2_def indexKey_def)
  note wB = save_unique_cedula [OF sch, of Passengers passengerB, unfolded c]
  note wA = save_unique_cedula [OF sch, of Passengers passengerA2, unfolded c]
  from wB k have 1: "save Passengers passengerB dbA = (Some ConstraintError, dbA)"
    by simp
  from wA k have 2: "fst (save Passengers passengerA2 dbA) = None"
    "db_content (snd (save Passengers passengerA2 dbA)) Passengers = [passengerA2]"
    by simp_all
  from sch c k 1 2 show ?thesis
    by simp
qed

section \<open>The migration from localStorage\<close>

lemma upsert_mem:
  "x \<in> set (upsert r T) \<Longrightarrow> x = r \<or> (x \<in> set T \<and> obj_id x \<noteq> obj_id r)"
proof (cases "obj_id r \<in> obj_id ` set T")
  case True
  assume "x \<in> set (upsert r T)"
  with True obtain y where "y \<in> set T" and "x = (if obj_id y = obj_id r then r else y)"
    by (auto simp: upsert_def)
  then show ?thesis
    by (cases "obj_id y = obj_id r") simp_all
next
  case False
  assume "x \<in> set (upsert r T)"
  with False have "x = r \<or> x \<in> set T"
    by (auto simp: upsert_def)
  with False show ?thesis
    by (metis image_eqI)
qed

lemma ids_upsert: "obj_id ` set (upsert r S) = insert (obj_id r) (obj_id ` set S)"
  by (auto simp: upsert_def image_iff)

lemma map_ids_upsert:
  "obj_id r \<in> obj_id ` set S \<Longrightarrow> map obj_id (upsert r S) = map obj_id S"
  by (simp add: upsert_def)

lemma distinct_upsert:
  "distinct (map obj_id S) \<Longrightarrow> distinct (map obj_id (upsert r S))"
proof (cases "obj_id r \<in> obj_id ` set S")
  case True
  assume "distinct (map obj_id S)"
  with map_ids_upsert [OF True] show ?thesis by simp
next
  case False
  assume "distinct (map obj_id S)"
  with False show ?thesis by (simp add: upsert_def)
qed

lemma upsertAll_snoc: "upsertAll S (L @ [r]) = upsert r (upsertAll S L)"
  by (simp add: upsertAll_def)

lemma upsertAll_Nil: "upsertAll S [] = S"
  by (simp add: upsertAll_def)

lemma ids_upsertAll: "obj_id ` set (upsertAll S L) = obj_id ` set S \<union> obj_id ` set L"
  by (induction L rule: rev_induct) (auto simp: upsertAll_snoc upsertAll_Nil ids_upsert)

lemma distinct_upsertAll:
  "distinct (map obj_id S) \<Longrightarrow> distinct (map obj_id (upsertAll S L))"
  by (induction L rule: rev_induct) (simp_all add: upsertAll_snoc upsertAll_Nil distinct_upsert)

lemma settle_snoc:
  "settle (L @ [r]) x = (if obj_id r = obj_id x then r else settle L x)"
  by (simp add: settle_def lastOf_def)

lemma obj_id_settle: "obj_id (settle L x) = obj_id x"
  by (induction L rule: rev_induct) (simp_all add: settle_snoc settle_def [of "[]"] lastOf_def)

lemma settle_upsertAll: "x \<in> set (upsertAll S L) \<Longrightarrow> settle L x = x"
proof (induction L arbitrary: x rule: rev_induct)
  case Nil
  show ?case by (simp add: settle_def lastOf_def)
next
  case (snoc r L)
  from snoc.prems have "x = r \<or> (x \<in> set (upsertAll S L) \<and> obj_id x \<noteq> obj_id r)"
    by (auto simp: upsertAll_snoc dest: upsert_mem)
  then show ?case
    using snoc.IH by (auto simp: settle_snoc)
qed

lemma upsertAll_present:
  "obj_id ` set L \<subseteq> obj_id ` set S \<Longrightarrow> upsertAll S L = map (settle L) S"
proof (induction L rule: rev_induct)
  case Nil
  show ?case by (simp add: upsertAll_def settle_def lastOf_def)
next
  case (snoc r L)
  then have ih: "upsertAll S L = map (settle L) S" and r: "obj_id r \<in> obj_id ` set S"
    by auto
  from r have "obj_id r \<in> obj_id ` set (map (settle L) S)"
    by (simp add: image_image obj_id_settle)
  then have "upsert r (map (settle L) S)
          = map (\<lambda>x. if obj_id x = obj_id r then r else x) (map (settle L) S)"
    by (simp only: upsert_def if_True)
  also have "\<dots> = map (settle (L @ [r])) S"
    by (auto simp: settle_snoc obj_id_settle)
  finally show ?case
    by (simp add: upsertAll_snoc ih)
qed

lemma upsertAll_idem: "upsertAll (upsertAll S L) L = upsertAll S L"
proof -
  have "obj_id ` set L \<subseteq> obj_id ` set (upsertAll S L)"
    by (simp add: ids_upsertAll)
  then have "upsertAll (upsertAll S L) L = map (settle L) (upsertAll S L)"
    by (rule upsertAll_present)
  also have "\<dots> = upsertAll S L"
    by (rule map_idI) (rule settle_upsertAll)
  finally show ?thesis .
qed

lemma putAll_Inr: "putAll ixs L S = Inr S1 \<Longrightarrow> S1 = upsertAll S L"
  by (induction L arbitrary: S)
     (auto simp: upsertAll_def putObj_def split: if_splits sum.splits)

lemma putAll_twice:
  assumes "putAll ixs L S = Inr S1" and "putAll ixs L S1 = Inr S2"
  shows "S2 = S1"
  using putAll_Inr [OF assms(1)] putAll_Inr [OF assms(2)] by (simp add: upsertAll_idem)

lemma saveAll_rejected: "fst (saveAll n L db) \<noteq> None \<Longrightarrow> snd (saveAll n L db) = db"
  by (auto simp: saveAll_def split: option.splits sum.splits if_splits)

lemma saveAll_frame:
  "db_schema (snd (saveAll n L db)) = db_schema db"
  "m \<noteq> n \<Longrightarrow> db_content (snd (saveAll n L db)) m = db_content db m"
  by (auto simp: saveAll_def split: option.splits sum.splits)

lemma saveAll_local:
  assumes "db_schema db' = db_schema db" and "db_content db' n = db_content db n"
  shows "fst (saveAll n L db') = fst (saveAll n L db)"
    and "db_content (snd (saveAll n L db')) n = db_content (snd (saveAll n L db)) n"
  using assms by (auto simp: saveAll_def split: option.splits sum.splits)

lemma content_update_same:
  "db_content d n = S \<Longrightarrow> d\<lparr>db_content := (db_content d)(n := S)\<rparr> = d"
  by (cases d) auto

lemma saveAll_again:
  assumes "fst (saveAll n L db) = None"
    and "db_schema db1 = db_schema db"
    and "db_content db1 n = db_content (snd (saveAll n L db)) n"
    and "fst (saveAll n L db1) = None"
  shows "snd (saveAll n L db1) = db1"
proof (cases "map_of (db_schema db) n")
  case None
  with assms(1) show ?thesis
    by (simp add: saveAll_def)
next
  case (Some ixs)
  show ?thesis
  proof (cases "L = []")
    case True
    with Some assms(2) show ?thesis
      by (simp add: saveAll_def)
  next
    case False
    with Some assms(1) obtain S1 where 1: "putAll ixs L (db_content db n) = Inr S1"
      by (auto simp: saveAll_def split: sum.splits)
    with Some False assms(3) have c: "db_content db1 n = S1"
      by (simp add: saveAll_def)
    from Some False assms(2,4) obtain S2 where 2: "putAll ixs L (db_content db1 n) = Inr S2"
      by (auto simp: saveAll_def split: sum.splits)
    from putAll_twice [OF 1 2 [unfolded c]] have "S2 = S1" .
    with Some False assms(2) 2 c show ?thesis
      by (simp add: saveAll_def content_update_same)
  qed
qed

lemma saveEach_Cons:
  "saveEach (n # ns) leg db
     = (if leg n = [] then saveEach ns leg db
        else if fst (saveAll n (leg n) db) = None
             then saveEach ns leg (snd (saveAll n (leg n) db))
             else saveAll n (leg n) db)"
  by (cases "saveAll n (leg n) db") (auto split: option.splits)

lemma saveEach_frame:
  "db_schema (snd (saveEach ns leg db)) = db_schema db"
  "m \<notin> set ns \<Longrightarrow> db_content (snd (saveEach ns leg db)) m = db_content db m"
  by (induction ns arbitrary: db)
     (simp_all add: saveEach_Cons saveAll_frame del: saveEach.simps(2))

lemma saveEach_retry:
  assumes "distinct ns" and "fst (saveEach ns leg db) \<noteq> None"
  shows "fst (saveEach ns leg (snd (saveEach ns leg db))) \<noteq> None
         \<and> snd (saveEach ns leg (snd (saveEach ns leg db))) = snd (saveEach ns leg db)"
  using assms
proof (induction ns arbitrary: db)
  case Nil
  then show ?case by simp
next
  case (Cons n ns)
  show ?case
  proof (cases "leg n = []")
    case True
    with Cons show ?thesis
      by (simp add: saveEach_Cons del: saveEach.simps(2))
  next
    case False
    show ?thesis
    proof (cases "fst (saveAll n (leg n) db) = None")
      case rejected: False
      then have u: "snd (saveAll n (leg n) db) = db"
        by (rule saveAll_rejected)
      from False rejected have e: "saveEach (n # ns) leg db = saveAll n (leg n) db"
        by (auto simp: saveEach_Cons simp del: saveEach.simps(2))
      then have "snd (saveEach (n # ns) leg db) = db"
        by (simp add: u)
      with Cons.prems(2) show ?thesis
        by (simp del: saveEach.simps(2))
    next
      case ok: True
      let ?db' = "snd (saveAll n (leg n) db)"
      let ?db1 = "snd (saveEach ns leg ?db')"
      from False ok have e: "saveEach (n # ns) leg db = saveEach ns leg ?db'"
        by (simp add: saveEach_Cons del: saveEach.simps(2))
      with Cons.prems have f: "fst (saveEach ns leg ?db') \<noteq> None" and d: "distinct ns"
        and nn: "n \<notin> set ns"
        by simp_all
      note ih = Cons.IH [OF d f]
      have s1: "db_schema ?db1 = db_schema db"
        by (simp add: saveEach_frame saveAll_frame)
      have c1: "db_content ?db1 n = db_content ?db' n"
        using nn by (simp add: saveEach_frame)
      show ?thesis
      proof (cases "fst (saveAll n (leg n) ?db1) = None")
        case False
        then have "snd (saveAll n (leg n) ?db1) = ?db1"
          by (rule saveAll_rejected)
        with False \<open>leg n \<noteq> []\<close> show ?thesis
          unfolding e by (auto simp: saveEach_Cons simp del: saveEach.simps(2))
      next
        case True
        from saveAll_again [OF ok s1 c1 True] have "snd (saveAll n (leg n) ?db1) = ?db1" .
        with True \<open>leg n \<noteq> []\<close> ih show ?thesis
          unfolding e by (simp add: saveEach_Cons del: saveEach.simps(2))
      qed
    qed
  qed
qed

lemma saveEach_ok_iff:
  assumes "distinct ns"
  shows "fst (saveEach ns leg db) = None
         \<longleftrightarrow> (\<forall>n \<in> set ns. leg n \<noteq> [] \<longrightarrow> fst (saveAll n (leg n) db) = None)"
  using assms
proof (induction ns arbitrary: db)
  case Nil
  show ?case by simp
next
  case (Cons n ns)
  then have d: "distinct ns" and nn: "n \<notin> set ns"
    by simp_all
  have loc: "fst (saveAll m (leg m) (snd (saveAll n (leg n) db))) = fst (saveAll m (leg m) db)"
    if "m \<in> set ns" for m
  proof -
    from that nn have "m \<noteq> n" by auto
    then show ?thesis
      by (intro saveAll_local(1)) (simp_all add: saveAll_frame)
  qed
  show ?case
    using Cons.IH [OF d, of db] Cons.IH [OF d, of "snd (saveAll n (leg n) db)"] loc
    by (auto simp: saveEach_Cons simp del: saveEach.simps(2))
qed

lemma distinct_saveAll:
  assumes "\<forall>m. distinct (map obj_id (db_content db m))"
  shows "distinct (map obj_id (db_content (snd (saveAll n L db)) m))"
  using assms
  by (auto simp: saveAll_def distinct_upsertAll split: option.splits sum.splits
        dest!: putAll_Inr)

lemma distinct_saveEach:
  assumes "\<forall>m. distinct (map obj_id (db_content db m))"
  shows "distinct (map obj_id (db_content (snd (saveEach ns leg db)) m))"
  using assms
  by (induction ns arbitrary: db)
     (simp_all add: saveEach_Cons distinct_saveAll del: saveEach.simps(2))

lemma distinct_migrationOrder: "distinct migrationOrder"
  by (simp add: migrationOrder_def)

lemma upsert_keeps: "x \<in> set T \<Longrightarrow> obj_id x \<noteq> obj_id r \<Longrightarrow> x \<in> set (upsert r T)"
  by (auto simp: upsert_def image_iff intro!: bexI [of _ x])

lemma upsertAll_keeps:
  "x \<in> set S \<Longrightarrow> obj_id x \<notin> obj_id ` set L \<Longrightarrow> x \<in> set (upsertAll S L)"
  by (induction L rule: rev_induct) (auto simp: upsertAll_snoc upsertAll_Nil intro: upsert_keeps)

lemma upsertAll_mem:
  "x \<in> set (upsertAll S L) \<Longrightarrow> x \<in> set L \<or> (x \<in> set S \<and> obj_id x \<notin> obj_id ` set L)"
proof (induction L arbitrary: x rule: rev_induct)
  case Nil
  then show ?case by (simp add: upsertAll_Nil)
next
  case (snoc r L)
  from snoc.prems have "x = r \<or> (x \<in> set (upsertAll S L) \<and> obj_id x \<noteq> obj_id r)"
    by (auto simp: upsertAll_snoc dest: upsert_mem)
  then show ?case
    using snoc.IH [of x] by auto
qed

lemma upsertAll_legacy:
  assumes "r \<in> set L"
  shows "\<exists>x \<in> set (upsertAll S L). obj_id x = obj_id r \<and> x \<in> set L"
proof -
  from assms have "obj_id r \<in> obj_id ` set (upsertAll S L)"
    by (simp add: ids_upsertAll)
  then obtain x where x: "x \<in> set (upsertAll S L)" "obj_id x = obj_id r"
    by (auto simp: image_iff)
  from upsertAll_mem [OF x(1)] x(2) assms have "x \<in> set L"
    by (auto simp: image_iff)
  with x show ?thesis
    by blast
qed

lemma saveAll_content:
  "fst (saveAll n L db) = None
     \<Longrightarrow> db_content (snd (saveAll n L db)) n = upsertAll (db_content db n) L"
  by (auto simp: saveAll_def upsertAll_Nil split: option.splits sum.splits if_splits
        dest!: putAll_Inr)

lemma saveEach_content:
  assumes "distinct ns" and "n \<in> set ns"
  shows "db_content (snd (saveEach ns leg db)) n
           = (if \<forall>m \<in> set (takeWhile (\<lambda>m. m \<noteq> n) ns @ [n]).
                    leg m \<noteq> [] \<longrightarrow> fst (saveAll m (leg m) db) = None
              then upsertAll (db_content db n) (leg n)
              else db_content db n)"
  using assms
proof (induction ns arbitrary: db)
  case Nil
  then show ?case by simp
next
  case (Cons x ns)
  then have d: "distinct ns" and xn: "x \<notin> set ns"
    by simp_all
  let ?db' = "snd (saveAll x (leg x) db)"
  show ?case
  proof (cases "n = x")
    case True
    have t: "takeWhile (\<lambda>m. m \<noteq> n) (x # ns) = []"
      using True by simp
    show ?thesis
    proof (cases "leg x = []")
      case empty: True
      with True xn show ?thesis
        unfolding t by (simp add: saveEach_Cons saveEach_frame upsertAll_Nil del: saveEach.simps(2))
    next
      case False
      show ?thesis
      proof (cases "fst (saveAll x (leg x) db) = None")
        case ok: True
        with False True xn show ?thesis
          unfolding t
          by (simp add: saveEach_Cons saveEach_frame saveAll_content del: saveEach.simps(2))
      next
        case rejected: False
        with False True saveAll_rejected [OF rejected] show ?thesis
          unfolding t by (auto simp: saveEach_Cons simp del: saveEach.simps(2))
      qed
    qed
  next
    case False
    with Cons.prems have nn: "n \<in> set ns"
      by simp
    have t: "takeWhile (\<lambda>m. m \<noteq> n) (x # ns) @ [n] = x # (takeWhile (\<lambda>m. m \<noteq> n) ns @ [n])"
      using False by simp
    have sub: "set (takeWhile (\<lambda>m. m \<noteq> n) ns @ [n]) \<subseteq> set ns"
      using nn set_takeWhileD [of _ "\<lambda>m. m \<noteq> n" ns] by auto
    have loc: "fst (saveAll m (leg m) ?db') = fst (saveAll m (leg m) db)"
      if "m \<in> set (takeWhile (\<lambda>m. m \<noteq> n) ns @ [n])" for m
    proof -
      from that sub xn have "m \<noteq> x" by auto
      then show ?thesis
        by (intro saveAll_local(1)) (simp_all add: saveAll_frame)
    qed
    have same: "db_content ?db' n = db_content db n"
      using False by (simp add: saveAll_frame)
    have cond: "(\<forall>m \<in> set (takeWhile (\<lambda>m. m \<noteq> n) ns @ [n]).
                    leg m \<noteq> [] \<longrightarrow> fst (saveAll m (leg m) ?db') = None)
                \<longleftrightarrow> (\<forall>m \<in> set (takeWhile (\<lambda>m. m \<noteq> n) ns @ [n]).
                    leg m \<noteq> [] \<longrightarrow> fst (saveAll m (leg m) db) = None)"
      by (rule ball_cong [OF refl]) (simp only: loc)
    have ih': "db_content (snd (saveEach ns leg ?db')) n
                 = (if \<forall>m \<in> set (takeWhile (\<lambda>m. m \<noteq> n) ns @ [n]).
                          leg m \<noteq> [] \<longrightarrow> fst (saveAll m (leg m) db) = None
                    then upsertAll (db_content db n) (leg n)
                    else db_content db n)"
      unfolding Cons.IH [OF d nn, of ?db'] cond same by (rule refl)
    show ?thesis
    proof (cases "leg x = []")
      case True
      with Cons.IH [OF d nn, of db] show ?thesis
        unfolding t by (simp add: saveEach_Cons del: saveEach.simps(2))
    next
      case nonempty: False
      show ?thesis
      proof (cases "fst (saveAll x (leg x) db) = None")
        case True
        with nonempty ih' show ?thesis
          unfolding t by (simp add: saveEach_Cons del: saveEach.simps(2))
      next
        case rejected: False
        with nonempty saveAll_rejected [OF rejected] show ?thesis
          unfolding t by (auto simp: saveEach_Cons simp del: saveEach.simps(2))
      qed
    qed
  qed
qed

lemma in_migrationOrder: "n \<in> set migrationOrder"
  by (cases n) (simp_all add: migrationOrder_def)

lemma idb_migrateFromLocalStorage:
  "truthyItem (migration_completed a) = None
     \<Longrightarrow> idb (migrateFromLocalStorage a) = snd (saveEach migrationOrder (legacy a) (idb a))"
  by (cases "saveEach migrationOrder (legacy a) (idb a)")
     (auto simp: migrateFromLocalStorage_def split: option.splits)

lemma legacy_migrateFromLocalStorage: "legacy (migrateFromLocalStorage a) = legacy a"
  by (cases "saveEach migrationOrder (legacy a) (idb a)")
     (auto simp: migrateFromLocalStorage_def split: option.splits)

lemma schema_migrateFromLocalStorage:
  "db_schema (idb (migrateFromLocalStorage a)) = db_schema (idb a)"
proof (cases "truthyItem (migration_completed a) = None")
  case True
  then show ?thesis
    by (simp add: idb_migrateFromLocalStorage saveEach_frame)
next
  case False
  then show ?thesis
    by (simp add: migrateFromLocalStorage_def)
qed

lemma marker_migrateFromLocalStorage:
  "truthyItem (migration_completed a) = None
     \<Longrightarrow> truthyItem (migration_completed (migrateFromLocalStorage a)) \<noteq> None
         \<longleftrightarrow> (\<forall>n \<in> set migrationOrder. legacy a n \<noteq> [] \<longrightarrow>
                fst (saveAll n (legacy a n) (idb a)) = None)"
proof -
  assume m: "truthyItem (migration_completed a) = None"
  have "truthyItem (migration_completed (migrateFromLocalStorage a)) \<noteq> None
          \<longleftrightarrow> fst (saveEach migrationOrder (legacy a) (idb a)) = None"
    using m
    by (cases "saveEach migrationOrder (legacy a) (idb a)")
       (auto simp: migrateFromLocalStorage_def truthyItem_def split: option.splits)
  then show ?thesis
    by (simp only: saveEach_ok_iff [OF distinct_migrationOrder])
qed

lemma content_migrateFromLocalStorage:
  assumes "truthyItem (migration_completed a) = None"
  shows "db_content (idb (migrateFromLocalStorage a)) n
           = (if \<forall>m \<in> set (takeWhile (\<lambda>m. m \<noteq> n) migrationOrder @ [n]).
                    legacy a m \<noteq> [] \<longrightarrow> fst (saveAll m (legacy a m) (idb a)) = None
              then upsertAll (db_content (idb a) n) (legacy a n)
              else db_content (idb a) n)"
  unfolding idb_migrateFromLocalStorage [OF assms]
  by (rule saveEach_content [OF distinct_migrationOrder in_migrationOrder])

lemma content_migrated:
  assumes "truthyItem (migration_completed a) = None"
    and "truthyItem (migration_completed (migrateFromLocalStorage a)) \<noteq> None"
  shows "db_content (idb (migrateFromLocalStorage a)) n
           = upsertAll (db_content (idb a) n) (legacy a n)"
proof -
  from assms have ok: "\<forall>n \<in> set migrationOrder. legacy a n \<noteq> [] \<longrightarrow>
                        fst (saveAll n (legacy a n) (idb a)) = None"
    by (simp only: marker_migrateFromLocalStorage)
  have "\<forall>m \<in> set (takeWhile (\<lambda>m. m \<noteq> n) migrationOrder @ [n]).
           legacy a m \<noteq> [] \<longrightarrow> fst (saveAll m (legacy a m) (idb a)) = None"
    using ok in_migrationOrder by blast
  then show ?thesis
    unfolding content_migrateFromLocalStorage [OF assms(1)] by (rule if_P)
qed

text \<open>
  C6. \<open>migrateFromLocalStorage\<close> changes nothing when the marker is set. When the marker is not
  set, it is set afterwards exactly if the save of every non-empty legacy collection succeeds
  (so it is not set when a save fails), and the records of each store afterwards are these:
  the store has received its legacy collection, each record put in order over the record with
  its id, when the save of that collection and of every collection before it in the order
  succeeds, and holds what it held before otherwise. So when the marker is set by the run,
  every store holds its records of before with the legacy collection put over them: every
  legacy record has its id stored, with a record of the legacy collection, and a record of
  before whose id no legacy record has is still stored. The legacy collections and the stores
  and indexes of the database stay as they are. Running the migration twice in a row leaves
  the state that running it once leaves: the same records in every store and the same marker.
  And when no store holds two records with the same id before, none does after.
\<close>

theorem migrateFromLocalStorage_idempotent:
  "(truthyItem (migration_completed a) \<noteq> None \<longrightarrow> migrateFromLocalStorage a = a)
   \<and> (truthyItem (migration_completed a) = None \<longrightarrow>
        (truthyItem (migration_completed (migrateFromLocalStorage a)) \<noteq> None
         \<longleftrightarrow> (\<forall>n \<in> set migrationOrder. legacy a n \<noteq> [] \<longrightarrow>
                fst (saveAll n (legacy a n) (idb a)) = None)))
   \<and> migrateFromLocalStorage (migrateFromLocalStorage a) = migrateFromLocalStorage a
   \<and> ((\<forall>n. distinct (map obj_id (db_content (idb a) n))) \<longrightarrow>
        (\<forall>n. distinct (map obj_id (db_content (idb (migrateFromLocalStorage a)) n))))
   \<and> (truthyItem (migration_completed a) = None \<longrightarrow>
        (\<forall>n. db_content (idb (migrateFromLocalStorage a)) n
              = (if \<forall>m \<in> set (takeWhile (\<lambda>m. m \<noteq> n) migrationOrder @ [n]).
                       legacy a m \<noteq> [] \<longrightarrow> fst (saveAll m (legacy a m) (idb a)) = None
                 then upsertAll (db_content (idb a) n) (legacy a n)
                 else db_content (idb a) n)))
   \<and> (truthyItem (migration_completed a) = None
        \<and> truthyItem (migration_completed (migrateFromLocalStorage a)) \<noteq> None \<longrightarrow>
        (\<forall>n. db_content (idb (migrateFromLocalStorage a)) n
                = upsertAll (db_content (idb a) n) (legacy a n)
              \<and> (\<forall>r \<in> set (legacy a n).
                    \<exists>x \<in> set (db_content (idb (migrateFromLocalStorage a)) n).
                       obj_id x = obj_id r \<and> x \<in> set (legacy a n))
              \<and> (\<forall>x \<in> set (db_content (idb a) n).
                    obj_id x \<notin> obj_id ` set (legacy a n) \<longrightarrow>
                    x \<in> set (db_content (idb (migrateFromLocalStorage a)) n))))
   \<and> legacy (migrateFromLocalStorage a) = legacy a
   \<and> db_schema (idb (migrateFromLocalStorage a)) = db_schema (idb a)"
proof -
  have 1: "truthyItem (migration_completed a) \<noteq> None \<longrightarrow> migrateFromLocalStorage a = a"
    by (simp add: migrateFromLocalStorage_def)
  have 2: "truthyItem (migration_completed a) = None \<longrightarrow>
        (truthyItem (migration_completed (migrateFromLocalStorage a)) \<noteq> None
         \<longleftrightarrow> (\<forall>n \<in> set migrationOrder. legacy a n \<noteq> [] \<longrightarrow>
                fst (saveAll n (legacy a n) (idb a)) = None))"
    by (rule impI) (rule marker_migrateFromLocalStorage)
  have 3: "migrateFromLocalStorage (migrateFromLocalStorage a) = migrateFromLocalStorage a"
  proof (cases "truthyItem (migration_completed a) = None")
    case False
    then show ?thesis
      by (simp add: migrateFromLocalStorage_def)
  next
    case True
    show ?thesis
    proof (cases "fst (saveEach migrationOrder (legacy a) (idb a)) = None")
      case ok: True
      then have "truthyItem (migration_completed (migrateFromLocalStorage a)) \<noteq> None"
        using True
        by (cases "saveEach migrationOrder (legacy a) (idb a)")
           (auto simp: migrateFromLocalStorage_def truthyItem_def)
      then show ?thesis
        by (simp add: migrateFromLocalStorage_def [of "migrateFromLocalStorage a"])
    next
      case failed: False
      let ?db1 = "snd (saveEach migrationOrder (legacy a) (idb a))"
      from failed True have 1: "migrateFromLocalStorage a = a\<lparr>idb := ?db1\<rparr>"
        by (cases "saveEach migrationOrder (legacy a) (idb a)")
           (auto simp: migrateFromLocalStorage_def)
      from saveEach_retry [OF distinct_migrationOrder failed]
      have 2: "fst (saveEach migrationOrder (legacy a) ?db1) \<noteq> None"
        and 3: "snd (saveEach migrationOrder (legacy a) ?db1) = ?db1"
        by simp_all
      from True 2 3 have "migrateFromLocalStorage (a\<lparr>idb := ?db1\<rparr>) = a\<lparr>idb := ?db1\<rparr>"
        by (cases "saveEach migrationOrder (legacy a) ?db1")
           (auto simp: migrateFromLocalStorage_def)
      with 1 show ?thesis
        by simp
    qed
  qed
  have 4: "(\<forall>n. distinct (map obj_id (db_content (idb a) n))) \<longrightarrow>
        (\<forall>n. distinct (map obj_id (db_content (idb (migrateFromLocalStorage a)) n)))"
  proof
    assume d: "\<forall>n. distinct (map obj_id (db_content (idb a) n))"
    have c: "idb (migrateFromLocalStorage a) = idb a
          \<or> idb (migrateFromLocalStorage a) = snd (saveEach migrationOrder (legacy a) (idb a))"
      by (cases "saveEach migrationOrder (legacy a) (idb a)")
         (auto simp: migrateFromLocalStorage_def split: option.splits)
    show "\<forall>n. distinct (map obj_id (db_content (idb (migrateFromLocalStorage a)) n))"
    proof
      fix n
      from c d distinct_saveEach [OF d, where m = n and ns = migrationOrder and leg = "legacy a"]
      show "distinct (map obj_id (db_content (idb (migrateFromLocalStorage a)) n))"
        by auto
    qed
  qed
  have 5: "truthyItem (migration_completed a) = None \<longrightarrow>
        (\<forall>n. db_content (idb (migrateFromLocalStorage a)) n
              = (if \<forall>m \<in> set (takeWhile (\<lambda>m. m \<noteq> n) migrationOrder @ [n]).
                       legacy a m \<noteq> [] \<longrightarrow> fst (saveAll m (legacy a m) (idb a)) = None
                 then upsertAll (db_content (idb a) n) (legacy a n)
                 else db_content (idb a) n))"
    by (intro impI allI) (rule content_migrateFromLocalStorage)
  have 6: "truthyItem (migration_completed a) = None
        \<and> truthyItem (migration_completed (migrateFromLocalStorage a)) \<noteq> None \<longrightarrow>
        (\<forall>n. db_content (idb (migrateFromLocalStorage a)) n
                = upsertAll (db_content (idb a) n) (legacy a n)
              \<and> (\<forall>r \<in> set (legacy a n).
                    \<exists>x \<in> set (db_content (idb (migrateFromLocalStorage a)) n).
                       obj_id x = obj_id r \<and> x \<in> set (legacy a n))
              \<and> (\<forall>x \<in> set (db_content (idb a) n).
                    obj_id x \<notin> obj_id ` set (legacy a n) \<longrightarrow>
                    x \<in> set (db_content (idb (migrateFromLocalStorage a)) n)))"
  proof (intro impI allI)
    fix n
    assume "truthyItem (migration_completed a) = None
        \<and> truthyItem (migration_completed (migrateFromLocalStorage a)) \<noteq> None"
    then have e: "db_content (idb (migrateFromLocalStorage a)) n
                    = upsertAll (db_content (idb a) n) (legacy a n)"
      by (intro content_migrated) simp_all
    show "db_content (idb (migrateFromLocalStorage a)) n
                = upsertAll (db_content (idb a) n) (legacy a n)
              \<and> (\<forall>r \<in> set (legacy a n).
                    \<exists>x \<in> set (db_content (idb (migrateFromLocalStorage a)) n).
                       obj_id x = obj_id r \<and> x \<in> set (legacy a n))
              \<and> (\<forall>x \<in> set (db_content (idb a) n).
                    obj_id x \<notin> obj_id ` set (legacy a n) \<longrightarrow>
                    x \<in> set (db_content (idb (migrateFromLocalStorage a)) n))"
      unfolding e
      by (intro conjI ballI impI refl upsertAll_legacy upsertAll_keeps)
  qed
  show ?thesis
    by (intro conjI) (fact 1 2 3 4 5 6 legacy_migrateFromLocalStorage
          schema_migrateFromLocalStorage)+
qed

theorem migrateFromLocalStorage_idempotent_witness:
  "truthyItem (migration_completed (appA\<lparr>migration_completed := Some ''true''\<rparr>)) \<noteq> None
   \<and> migrateFromLocalStorage (appA\<lparr>migration_completed := Some ''true''\<rparr>)
       = appA\<lparr>migration_completed := Some ''true''\<rparr>
   \<and> truthyItem (migration_completed appA) = None
   \<and> fst (saveAll Users (legacy appA Users) (idb appA)) = None
   \<and> fst (saveAll Passengers (legacy appA Passengers) (idb appA)) = None
   \<and> truthyItem (migration_completed (migrateFromLocalStorage appA)) \<noteq> None
   \<and> migrateFromLocalStorage (migrateFromLocalStorage appA) = migrateFromLocalStorage appA
   \<and> distinct (map obj_id (db_content (idb (migrateFromLocalStorage appA)) Passengers))
   \<and> truthyItem (migration_completed appFail) = None
   \<and> fst (saveAll Passengers (legacy appFail Passengers) (idb appFail)) \<noteq> None
   \<and> truthyItem (migration_completed (migrateFromLocalStorage appFail)) = None
   \<and> migrateFromLocalStorage (migrateFromLocalStorage appFail) = migrateFromLocalStorage appFail
   \<and> db_content (idb appA) Passengers = [passengerA]
   \<and> db_content (idb (migrateFromLocalStorage appA)) Passengers = [passengerA2, passengerC]
   \<and> db_content (idb (migrateFromLocalStorage appA)) Users = [userU]
   \<and> passengerC \<in> set (legacy appA Passengers)
   \<and> (\<exists>x \<in> set (db_content (idb (migrateFromLocalStorage appA)) Passengers).
         obj_id x = obj_id passengerC \<and> x \<in> set (legacy appA Passengers))
   \<and> db_content (idb (migrateFromLocalStorage appFail)) Users = [userU]
   \<and> db_content (idb (migrateFromLocalStorage appFail)) Passengers = [passengerA]"
proof -
  let ?done = "appA\<lparr>migration_completed := Some ''true''\<rparr>"
  have sch: "map_of (db_schema dbA) Users
               = Some [\<lparr>ix_name = ''cedula'', ix_keyPath = ''cedula'', ix_unique = True\<rparr>]"
    "map_of (db_schema dbA) Passengers
               = Some [\<lparr>ix_name = ''cedula'', ix_keyPath = ''cedula'', ix_unique = True\<rparr>]"
    by (simp_all add: dbA_def cedula_stores)
  have t: "truthyItem (migration_completed ?done) \<noteq> None"
    by (simp add: truthyItem_def)
  have mA: "truthyItem (migration_completed appA) = None"
    and mF: "truthyItem (migration_completed appFail) = None"
    by (simp_all add: appA_def appFail_def truthyItem_def)
  have cU: "db_content dbA Users = []" and cP: "db_content dbA Passengers = [passengerA]"
    by (simp_all add: dbA_def)
  have lA: "idb appA = dbA" "legacy appA Users = [userU]"
    "legacy appA Passengers = [passengerA2, passengerC]"
    and lF: "idb appFail = dbA" "legacy appFail Passengers = [passengerC, passengerB]"
    "legacy appFail Users = [userU]"
    by (simp_all add: appA_def appFail_def)
  have uA: "fst (saveAll Users (legacy appA Users) (idb appA)) = None"
    by (simp add: lA saveAll_def sch putObj_def violates_cedula cU)
  have uF: "fst (saveAll Users (legacy appFail Users) (idb appFail)) = None"
    by (simp add: lF saveAll_def sch putObj_def violates_cedula cU)
  have pA: "fst (saveAll Passengers (legacy appA Passengers) (idb appA)) = None"
    by (simp add: lA saveAll_def sch putObj_def violates_cedula cP upsert_def
          passengerA_def passengerA2_def passengerC_def indexKey_def)
  have pF: "fst (saveAll Passengers (legacy appFail Passengers) (idb appFail)) \<noteq> None"
    by (simp add: lF saveAll_def sch putObj_def violates_cedula cP upsert_def
          passengerA_def passengerB_def passengerC_def indexKey_def)
  have okA: "\<forall>n \<in> set migrationOrder. legacy appA n \<noteq> [] \<longrightarrow>
               fst (saveAll n (legacy appA n) (idb appA)) = None"
    using uA pA by (simp add: migrationOrder_def) (simp add: appA_def)
  have koF: "\<not> (\<forall>n \<in> set migrationOrder. legacy appFail n \<noteq> [] \<longrightarrow>
               fst (saveAll n (legacy appFail n) (idb appFail)) = None)"
    using pF by (simp add: migrationOrder_def) (simp add: appFail_def)
  have dA: "\<forall>n. distinct (map obj_id (db_content (idb appA) n))"
    by (simp add: appA_def dbA_def)
  have c0: "db_content (idb appA) Passengers = [passengerA]"
    by (simp add: lA cP)
  have c0F: "db_content (idb appFail) Passengers = [passengerA]"
    by (simp add: lF cP)
  have inC: "passengerC \<in> set (legacy appA Passengers)"
    by (simp add: lA)
  have upP: "upsertAll (db_content (idb appA) Passengers) (legacy appA Passengers)
               = [passengerA2, passengerC]"
    by (simp add: lA cP upsertAll_def upsert_def passengerA_def passengerA2_def passengerC_def)
  have upU: "upsertAll (db_content (idb appA) Users) (legacy appA Users) = [userU]"
    "upsertAll (db_content (idb appFail) Users) (legacy appFail Users) = [userU]"
    by (simp_all add: lA lF cU upsertAll_def upsert_def)
  have preU: "\<forall>m \<in> set (takeWhile (\<lambda>m. m \<noteq> Users) migrationOrder @ [Users]).
                legacy appFail m \<noteq> [] \<longrightarrow> fst (saveAll m (legacy appFail m) (idb appFail)) = None"
    using uF by (simp add: migrationOrder_def)
  have preP: "\<not> (\<forall>m \<in> set (takeWhile (\<lambda>m. m \<noteq> Passengers) migrationOrder @ [Passengers]).
                legacy appFail m \<noteq> [] \<longrightarrow> fst (saveAll m (legacy appFail m) (idb appFail)) = None)"
    using pF by (simp add: migrationOrder_def lF)
  note wD = migrateFromLocalStorage_idempotent [of ?done]
  note wA = migrateFromLocalStorage_idempotent [of appA]
  note wF = migrateFromLocalStorage_idempotent [of appFail]
  from wD t have 1: "migrateFromLocalStorage ?done = ?done"
    by (rule conjunct1 [THEN mp])
  from wA [THEN conjunct2, THEN conjunct1, THEN mp, OF mA] okA
  have 2: "truthyItem (migration_completed (migrateFromLocalStorage appA)) \<noteq> None"
    by (rule iffD2)
  from wA have 3: "migrateFromLocalStorage (migrateFromLocalStorage appA) = migrateFromLocalStorage appA"
    by (rule conjunct1 [OF conjunct2 [OF conjunct2]])
  from wA [THEN conjunct2, THEN conjunct2, THEN conjunct2, THEN conjunct1, THEN mp, OF dA]
  have 4: "distinct (map obj_id (db_content (idb (migrateFromLocalStorage appA)) Passengers))"
    by (rule spec)
  from wF [THEN conjunct2, THEN conjunct1, THEN mp, OF mF] koF
  have 5: "truthyItem (migration_completed (migrateFromLocalStorage appFail)) = None"
    by simp
  from wF have 6: "migrateFromLocalStorage (migrateFromLocalStorage appFail) = migrateFromLocalStorage appFail"
    by (rule conjunct1 [OF conjunct2 [OF conjunct2]])
  note allA = wA [THEN conjunct2, THEN conjunct2, THEN conjunct2, THEN conjunct2, THEN conjunct2,
                  THEN conjunct1, THEN mp, OF conjI [OF mA 2]]
  note allF = wF [THEN conjunct2, THEN conjunct2, THEN conjunct2, THEN conjunct2,
                  THEN conjunct1, THEN mp, OF mF]
  from allA [THEN spec, of Passengers, THEN conjunct1]
  have 7: "db_content (idb (migrateFromLocalStorage appA)) Passengers = [passengerA2, passengerC]"
    by (simp only: upP)
  from allA [THEN spec, of Users, THEN conjunct1]
  have 8: "db_content (idb (migrateFromLocalStorage appA)) Users = [userU]"
    by (simp only: upU)
  from allA [THEN spec, of Passengers, THEN conjunct2, THEN conjunct1, THEN bspec, OF inC]
  have 9: "\<exists>x \<in> set (db_content (idb (migrateFromLocalStorage appA)) Passengers).
         obj_id x = obj_id passengerC \<and> x \<in> set (legacy appA Passengers)" .
  from allF [THEN spec, of Users]
  have 10: "db_content (idb (migrateFromLocalStorage appFail)) Users = [userU]"
    by (simp only: if_P [OF preU] upU)
  from allF [THEN spec, of Passengers]
  have 11: "db_content (idb (migrateFromLocalStorage appFail)) Passengers = [passengerA]"
    by (simp only: if_not_P [OF preP] c0F)
  show ?thesis
    by (intro conjI) (fact t 1 mA uA pA 2 3 4 mF pF 5 6 c0 inC 7 8 9 10 11)+
qed

section \<open>The result of the passenger import\<close>

lemma processRows_invariant:
  assumes "distinct (map ip_cedula out)" and "ip_cedula ` set out \<subseteq> seen"
  shows "distinct (map ip_cedula (processRows env i rows seen out))
    \<and> (\<forall>p \<in> set (processRows env i rows seen out).
          p \<in> set out
          \<or> (ip_cedula p \<notin> seen
              \<and> (\<exists>r \<in> set rows. hasEssentials r \<and> ip_cedula p = cedulaOf r
                    \<and> ip_name p = nameOf r)))
    \<and> length (processRows env i rows seen out) \<le> length out + length (filter hasEssentials rows)"
  using assms
proof (induction rows arbitrary: i seen out)
  case Nil
  then show ?case by simp
next
  case (Cons r rows)
  note ih = Cons.IH [OF Cons.prems, of "Suc i"]
  show ?case
  proof (cases "\<not> truthy (nameOf r) \<or> cedulaOf r = []")
    case True
    with ih show ?thesis
      by (auto simp: Let_def hasEssentials_def)
  next
    case ess: False
    show ?thesis
    proof (cases "cedulaOf r \<in> seen")
      case True
      with ess ih show ?thesis
        by (auto simp: Let_def)
    next
      case fresh: False
      show ?thesis
      proof (cases "generateQRCode env \<lparr>qr_cedula = cedulaOf r, qr_name = nameOf r,
                   qr_gerencia = gerenciaOf r, qr_timestamp = isoAt env i\<rparr>")
        case None
        with ess fresh ih show ?thesis
          by (auto simp: Let_def)
      next
        case (Some qrCode)
        let ?np = "\<lparr>ip_id = uuidv4 env (length out), ip_name = nameOf r,
                       ip_cedula = cedulaOf r, ip_gerencia = gerenciaOf r, ip_qrCode = qrCode,
                       ip_createdAt = isoAt env i\<rparr>"
        from Cons.prems fresh have d: "distinct (map ip_cedula (out @ [?np]))"
          by auto
        from Cons.prems have s: "ip_cedula ` set (out @ [?np]) \<subseteq> insert (cedulaOf r) seen"
          by auto
        note ih2 = Cons.IH [OF d s, of "Suc i"]
        from ess fresh Some
        have e: "processRows env i (r # rows) seen out
                   = processRows env (Suc i) rows (insert (cedulaOf r) seen) (out @ [?np])"
          by (simp add: Let_def)
        from ess have h: "hasEssentials r"
          by (simp add: hasEssentials_def)
        show ?thesis
          unfolding e using ih2 fresh h by (auto simp: hasEssentials_def)
      qed
    qed
  qed
qed

text \<open>
  C9. The passengers that \<open>processPassengersFromImport\<close> returns have pairwise distinct
  cedulas, none of which is the cedula of an existing passenger. Every returned passenger
  carries the name and the cedula of an input row that has both, and there are at most as
  many returned passengers as such rows: a row without a name or without a cedula
  contributes nothing.
\<close>

theorem processPassengersFromImport_result:
  "distinct (map ip_cedula (processPassengersFromImport env existingPassengers data))
   \<and> (\<forall>p \<in> set (processPassengersFromImport env existingPassengers data).
         ip_cedula p \<notin> p_cedula ` set existingPassengers)
   \<and> (\<forall>p \<in> set (processPassengersFromImport env existingPassengers data).
         \<exists>r \<in> set data. truthy (nameOf r) \<and> cedulaOf r \<noteq> []
               \<and> ip_cedula p = cedulaOf r \<and> ip_name p = nameOf r)
   \<and> length (processPassengersFromImport env existingPassengers data)
       \<le> length (filter (\<lambda>r. truthy (nameOf r) \<and> cedulaOf r \<noteq> []) data)"
proof -
  have f: "hasEssentials = (\<lambda>r. truthy (nameOf r) \<and> cedulaOf r \<noteq> [])"
    by (rule ext) (simp add: hasEssentials_def)
  from processRows_invariant [of "[]" "set (map p_cedula existingPassengers)" env 0 data]
  show ?thesis
    unfolding processPassengersFromImport_def f
    by simp
qed

theorem processPassengersFromImport_result_witness:
  "map ip_cedula (processPassengersFromImport envA [paxA] dataA) = [''123'', ''900'']
   \<and> processPassengersFromImport envA [paxA] dataA ! 0
       \<in> set (processPassengersFromImport envA [paxA] dataA)
   \<and> distinct (map ip_cedula (processPassengersFromImport envA [paxA] dataA))
   \<and> ip_cedula (processPassengersFromImport envA [paxA] dataA ! 0) \<notin> p_cedula ` set [paxA]
   \<and> length (processPassengersFromImport envA [paxA] dataA) \<le> 4"
proof -
  let ?res = "processPassengersFromImport envA [paxA] dataA"
  have n: "nameOf rowAna = Str ''Ana''" "nameOf rowBeto = Str ''Beto''"
    "nameOf rowCaro = Str ''Caro''" "nameOf rowDani = Str ''Dani''"
    "nameOf rowEli = Str ''Eli''"
    by (simp_all add: rowAna_def rowBeto_def rowCaro_def rowDani_def rowEli_def nameOf_def)
  have c: "cedulaOf rowAna = ''123''" "cedulaOf rowBeto = ''123''"
    "cedulaOf rowCaro = []" "cedulaOf rowDani = ''477''"
    "cedulaOf rowEli = ''900''"
    by (simp_all add: rowAna_def rowBeto_def rowCaro_def rowDani_def rowEli_def cedulaOf_def
          trim_def isSpace_def)
  have e: "map ip_cedula ?res = [''123'', ''900'']"
    by (simp add: processPassengersFromImport_def dataA_def n c Let_def envA_def paxA_def)
  then have m: "?res ! 0 \<in> set ?res"
    by (cases ?res) auto
  have k: "length (filter (\<lambda>r. truthy (nameOf r) \<and> cedulaOf r \<noteq> []) dataA) = 4"
    by (simp add: dataA_def n c)
  note w = processPassengersFromImport_result [of envA "[paxA]" dataA]
  from w have 1: "distinct (map ip_cedula ?res)"
    by (rule conjunct1)
  from w m have 2: "ip_cedula (?res ! 0) \<notin> p_cedula ` set [paxA]"
    by blast
  from w k have 3: "length ?res \<le> 4"
    by simp
  show ?thesis
    by (intro conjI) (fact e m 1 2 3)+
qed

end
